theory Spec2Isabelle
  imports Complex_Main "HOL-Library.Word"
begin

section \<open>The flow graph of the tracking engine (flowgraph.cpp)\<close>

text \<open>
  The C++ members end in an underscore (\<open>source_\<close>, \<open>flowMap_\<close>, ...); such names are
  not identifiers of Isabelle, so the record fields drop it.  The member \<open>source_\<close> is
  the field \<open>sourceNode\<close>, since \<open>source\<close> is the accessor of the graph library.

  Numbers: \<open>size_t\<close> is a 64-bit word (\<open>timestep * 2 + 1\<close> wraps), the \<open>int\<close> flows and
  capacities are integers (a flow moves by one unit inside the checked range
  \<open>0 .. capacity\<close>), and a \<open>double\<close> is a real number.
\<close>

type_synonym Node = nat
type_synonym Arc = nat
type_synonym size_t = "64 word"
type_synonym CostVector = "real list"

subsection \<open>The directed multigraph (lemon::ListDigraph, as the code uses it)\<close>

text \<open>
  Nodes and arcs are identified by their ids, handed out densely from 0 in the order of
  creation; nothing is ever erased.  An arc id indexes the list of (source, target) pairs.
\<close>

record Graph =
  numNodes :: nat
  arcList :: "(Node \<times> Node) list"

definition emptyGraph :: Graph where
  "emptyGraph = \<lparr>numNodes = 0, arcList = []\<rparr>"

definition graphAddNode :: "Graph \<Rightarrow> Node \<times> Graph" where
  "graphAddNode G = (numNodes G, G\<lparr>numNodes := Suc (numNodes G)\<rparr>)"

definition graphAddArc :: "Graph \<Rightarrow> Node \<Rightarrow> Node \<Rightarrow> Arc \<times> Graph" where
  "graphAddArc G s t = (length (arcList G), G\<lparr>arcList := arcList G @ [(s, t)]\<rparr>)"

definition validArc :: "Graph \<Rightarrow> Arc \<Rightarrow> bool" where
  "validArc G a = (a < length (arcList G))"

definition source :: "Graph \<Rightarrow> Arc \<Rightarrow> Node" where
  "source G a = fst (arcList G ! a)"

definition target :: "Graph \<Rightarrow> Arc \<Rightarrow> Node" where
  "target G a = snd (arcList G ! a)"

text \<open>
  \<open>OutArcIt\<close>, \<open>InArcIt\<close> and \<open>ArcIt\<close>.  The library links a new arc in at the head of
  the out-list and of the in-list of its end nodes, and a new node at the head of the node
  list: an iteration meets the most recently added arc first, and \<open>ArcIt\<close> walks the
  out-lists node by node.
\<close>

definition newestFirst :: "Graph \<Rightarrow> Arc list" where
  "newestFirst G = rev [0 ..< length (arcList G)]"

definition outArcs :: "Graph \<Rightarrow> Node \<Rightarrow> Arc list" where
  "outArcs G n = filter (\<lambda>a. source G a = n) (newestFirst G)"

definition inArcs :: "Graph \<Rightarrow> Node \<Rightarrow> Arc list" where
  "inArcs G n = filter (\<lambda>a. target G a = n) (newestFirst G)"

definition allArcs :: "Graph \<Rightarrow> Arc list" where
  "allArcs G = concat (map (outArcs G) (rev [0 ..< numNodes G]))"

subsection \<open>The residual graph\<close>

datatype Direction = Forward | Backward

text \<open>
  The largest and smallest values of a marginal cost are the two infinities of
  \<open>double\<close>.
\<close>

datatype Cost = MinusInfinity | Finite real | PlusInfinity

fun negateCost :: "Cost \<Rightarrow> Cost" where
  "negateCost MinusInfinity = PlusInfinity"
| "negateCost (Finite c) = Finite (- c)"
| "negateCost PlusInfinity = MinusInfinity"

record ResidualArc =
  residualCost :: Cost
  residualCapacity :: int
  enabled :: bool
  provided :: "nat set"
  forbidden :: "nat set"

type_synonym ResidualGraph = "Arc \<times> Direction \<Rightarrow> ResidualArc"

text \<open>
  Modelled from the spec: the class \<open>ResidualGraph\<close> (residualgraph.h and its
  implementation) is not among the sources.  For every base arc it holds a forward and a
  backward residual arc, each with a residual cost, a residual capacity, an enabled flag
  and the two token sets \<open>provided\<close> and \<open>forbidden\<close>.  A new residual graph has no
  tokens; its arcs are refreshed and enabled by \<open>initializeResidualGraph\<close> before use.
\<close>

definition newResidualGraph :: ResidualGraph where
  "newResidualGraph =
     (\<lambda>_. \<lparr>residualCost = PlusInfinity, residualCapacity = 0, enabled = False,
            provided = {}, forbidden = {}\<rparr>)"

text \<open>
  Modelled from the spec: \<open>ResidualGraph::updateArc(a, direction, cost, capacity)\<close> stores
  the residual cost and the residual capacity of one residual arc.
\<close>

definition residualUpdateArc ::
  "ResidualGraph \<Rightarrow> Arc \<Rightarrow> Direction \<Rightarrow> Cost \<Rightarrow> int \<Rightarrow> ResidualGraph" where
  "residualUpdateArc R a d c k =
     R((a, d) := (R (a, d))\<lparr>residualCost := c, residualCapacity := k\<rparr>)"

text \<open>
  Modelled from the spec: \<open>ResidualGraph::addProvidedToken\<close> and
  \<open>ResidualGraph::addForbiddenToken\<close> add one token to the token set of one residual arc.
\<close>

definition addProvidedToken :: "ResidualGraph \<Rightarrow> Arc \<Rightarrow> Direction \<Rightarrow> nat \<Rightarrow> ResidualGraph" where
  "addProvidedToken R a d t = R((a, d) := (R (a, d))\<lparr>provided := insert t (provided (R (a, d)))\<rparr>)"

definition addForbiddenToken :: "ResidualGraph \<Rightarrow> Arc \<Rightarrow> Direction \<Rightarrow> nat \<Rightarrow> ResidualGraph" where
  "addForbiddenToken R a d t = R((a, d) := (R (a, d))\<lparr>forbidden := insert t (forbidden (R (a, d)))\<rparr>)"

text \<open>
  Modelled from the spec: enabling or disabling a base arc sets the enabled flag of both of
  its residual arcs.
\<close>

definition residualEnableArc :: "ResidualGraph \<Rightarrow> Arc \<Rightarrow> bool \<Rightarrow> ResidualGraph" where
  "residualEnableArc R a b =
     R((a, Forward) := (R (a, Forward))\<lparr>enabled := b\<rparr>,
       (a, Backward) := (R (a, Backward))\<lparr>enabled := b\<rparr>)"

subsection \<open>The state of a FlowGraph\<close>

record FullNode =
  u :: Node
  v :: Node
  a :: Arc

record FlowGraph =
  baseGraph :: Graph
  sourceNode :: Node
  targets :: "Node list"
  nodeTimestepMap :: "Node \<Rightarrow> size_t"
  arcCosts :: "Arc \<Rightarrow> CostVector"
  flowMap :: "Arc \<Rightarrow> int"
  capacityMap :: "Arc \<Rightarrow> int"
  intermediateArcs :: "Arc set"
  parentToDuplicateMap :: "Node \<rightharpoonup> Node"
  duplicateToParentMap :: "Node \<rightharpoonup> Node"
  residualGraph :: "ResidualGraph option"

text \<open>
  \<open>nodeTimestepMap_\<close> and \<open>arcCosts_\<close> are read with \<open>operator[]\<close>, which gives the
  default value (0, the empty vector) at a key that was never written: they are total
  functions with that default.  The two division maps are searched with \<open>find\<close>: they
  are partial maps.
\<close>

datatype error =
    AssertionFailed
  | EmptyContainer
  | InvalidArc
  | NoResidualGraph
  | NegativeFlow
  | FlowExceedsCapacity

text \<open>
  \<open>AssertionFailed\<close> is a failed \<open>assert\<close>; \<open>NegativeFlow\<close> and \<open>FlowExceedsCapacity\<close>
  are the two runtime errors thrown by \<open>updateArc\<close>.  The other three stand for
  behaviour that C++ leaves undefined: \<open>front()\<close> or \<open>[0]\<close> of an empty vector, an arc
  of a path that is not an arc of the graph, and a call through the null
  \<open>residualGraph_\<close> pointer.
\<close>

definition FlowGraph_new :: FlowGraph where
  "FlowGraph_new =
     (let (s, G1) = graphAddNode emptyGraph;
          (t, G2) = graphAddNode G1
      in \<lparr>baseGraph = G2, sourceNode = s, targets = [t],
          nodeTimestepMap = (\<lambda>_. 0)(s := 0, t := 1),
          arcCosts = (\<lambda>_. []), flowMap = (\<lambda>_. 0), capacityMap = (\<lambda>_. 0),
          intermediateArcs = {},
          parentToDuplicateMap = Map.empty, duplicateToParentMap = Map.empty,
          residualGraph = None\<rparr>)"

definition addArc :: "FlowGraph \<Rightarrow> Node \<Rightarrow> Node \<Rightarrow> CostVector \<Rightarrow> error + (Arc \<times> FlowGraph)" where
  "addArc g s t costs =
     (if \<not> length costs > 0 then Inl AssertionFailed
      else
        let (arc, G') = graphAddArc (baseGraph g) s t
        in Inr (arc, g\<lparr>baseGraph := G',
                       arcCosts := (arcCosts g)(arc := costs),
                       flowMap := (flowMap g)(arc := 0),
                       capacityMap := (capacityMap g)(arc := int (length costs))\<rparr>))"

definition addArcFull :: "FlowGraph \<Rightarrow> FullNode \<Rightarrow> FullNode \<Rightarrow> CostVector \<Rightarrow> error + (Arc \<times> FlowGraph)" where
  "addArcFull g src tgt costs = addArc g (v src) (u tgt) costs"

definition addNode :: "FlowGraph \<Rightarrow> CostVector \<Rightarrow> size_t \<Rightarrow> error + (FullNode \<times> FlowGraph)" where
  "addNode g costs timestep =
     (if \<not> length costs > 0 then Inl AssertionFailed
      else
        let (fu, G1) = graphAddNode (baseGraph g);
            (fv, G2) = graphAddNode G1
        in case addArc (g\<lparr>baseGraph := G2\<rparr>) fu fv costs of
             Inl e \<Rightarrow> Inl e
           | Inr (fa, g1) \<Rightarrow>
               let g2 = g1\<lparr>intermediateArcs := insert fa (intermediateArcs g1),
                           nodeTimestepMap := (nodeTimestepMap g1)
                              (fu := timestep * 2 + 1, fv := timestep * 2 + 2)\<rparr>
               in case targets g2 of
                    [] \<Rightarrow> Inl EmptyContainer
                  | front # _ \<Rightarrow>
                      Inr (\<lparr>u = fu, v = fv, a = fa\<rparr>,
                           if timestep * 2 + 2 \<ge> nodeTimestepMap g2 front
                           then g2\<lparr>nodeTimestepMap :=
                                     fold (\<lambda>t m. m(t := timestep * 2 + 3)) (targets g2)
                                       (nodeTimestepMap g2)\<rparr>
                           else g2))"

subsection \<open>Loops that may throw\<close>

fun foldE :: "('x \<Rightarrow> 's \<Rightarrow> error + 's) \<Rightarrow> 'x list \<Rightarrow> 's \<Rightarrow> error + 's" where
  "foldE f [] s = Inr s"
| "foldE f (x # xs) s = (case f x s of Inl e \<Rightarrow> Inl e | Inr s' \<Rightarrow> foldE f xs s')"

subsection \<open>Helpers declared in flowgraph.h\<close>

text \<open>
  Modelled from the spec: \<open>isTarget\<close>, \<open>sumInFlow\<close>, \<open>sumOutFlow\<close> and \<open>getArcCost\<close>
  are members of \<open>FlowGraph\<close> whose bodies are not among the sources.  A node is a target
  when it is one of \<open>targets_\<close>; the in-flow and out-flow of a node add up the flows of its
  in-arcs and out-arcs; the marginal cost \<open>arcCost(a, n)\<close> is \<open>c[n]\<close> for
  \<open>0 \<le> n < k\<close>, plus infinity for \<open>n \<ge> k\<close> and minus infinity for \<open>n < 0\<close>, where
  \<open>c\<close> is the cost vector of the arc and \<open>k\<close> its length.
\<close>

definition isTarget :: "FlowGraph \<Rightarrow> Node \<Rightarrow> bool" where
  "isTarget g n = (n \<in> set (targets g))"

definition sumInFlow :: "FlowGraph \<Rightarrow> Node \<Rightarrow> int" where
  "sumInFlow g n = sum_list (map (flowMap g) (inArcs (baseGraph g) n))"

definition sumOutFlow :: "FlowGraph \<Rightarrow> Node \<Rightarrow> int" where
  "sumOutFlow g n = sum_list (map (flowMap g) (outArcs (baseGraph g) n))"

definition getArcCost :: "FlowGraph \<Rightarrow> Arc \<Rightarrow> int \<Rightarrow> Cost" where
  "getArcCost g arc n =
     (if n < 0 then MinusInfinity
      else if nat n < length (arcCosts g arc) then Finite (arcCosts g arc ! nat n)
      else PlusInfinity)"

text \<open>
  Modelled from the spec: \<open>enableArc\<close> and the toggles are members of \<open>FlowGraph\<close> whose
  bodies are not among the sources.  Each sets the enabled flag of the residual arcs of a
  family of base arcs: all out-arcs of a node, all of them but the one to a given node, all
  of them but those to a target, all in-arcs of a node but the one from a given node, the
  appearance arcs (from the source) of a node, its disappearance arcs (to a target), and,
  for a division, all arcs out of the duplicate.
\<close>

definition enableArc :: "Arc \<Rightarrow> bool \<Rightarrow> FlowGraph \<Rightarrow> error + FlowGraph" where
  "enableArc arc state g =
     (case residualGraph g of
        None \<Rightarrow> Inl NoResidualGraph
      | Some R \<Rightarrow> Inr (g\<lparr>residualGraph := Some (residualEnableArc R arc state)\<rparr>))"

definition toggleOutArcs :: "Node \<Rightarrow> bool \<Rightarrow> FlowGraph \<Rightarrow> error + FlowGraph" where
  "toggleOutArcs n state g =
     foldE (\<lambda>oa. enableArc oa state) (outArcs (baseGraph g) n) g"

definition toggleOutArcsBut :: "Node \<Rightarrow> Node \<Rightarrow> bool \<Rightarrow> FlowGraph \<Rightarrow> error + FlowGraph" where
  "toggleOutArcsBut n exception state g =
     foldE (\<lambda>oa. enableArc oa state)
       (filter (\<lambda>oa. target (baseGraph g) oa \<noteq> exception) (outArcs (baseGraph g) n)) g"

definition toggleOutArcsButTarget :: "Node \<Rightarrow> bool \<Rightarrow> FlowGraph \<Rightarrow> error + FlowGraph" where
  "toggleOutArcsButTarget n state g =
     foldE (\<lambda>oa. enableArc oa state)
       (filter (\<lambda>oa. \<not> isTarget g (target (baseGraph g) oa)) (outArcs (baseGraph g) n)) g"

definition toggleInArcsBut :: "Node \<Rightarrow> Node \<Rightarrow> bool \<Rightarrow> FlowGraph \<Rightarrow> error + FlowGraph" where
  "toggleInArcsBut n exception state g =
     foldE (\<lambda>ia. enableArc ia state)
       (filter (\<lambda>ia. source (baseGraph g) ia \<noteq> exception) (inArcs (baseGraph g) n)) g"

definition toggleAppearanceArc :: "Node \<Rightarrow> bool \<Rightarrow> FlowGraph \<Rightarrow> error + FlowGraph" where
  "toggleAppearanceArc n state g =
     foldE (\<lambda>ia. enableArc ia state)
       (filter (\<lambda>ia. source (baseGraph g) ia = sourceNode g) (inArcs (baseGraph g) n)) g"

definition toggleDisappearanceArc :: "Node \<Rightarrow> bool \<Rightarrow> FlowGraph \<Rightarrow> error + FlowGraph" where
  "toggleDisappearanceArc n state g =
     foldE (\<lambda>oa. enableArc oa state)
       (filter (\<lambda>oa. isTarget g (target (baseGraph g) oa)) (outArcs (baseGraph g) n)) g"

definition toggleDivision :: "Node \<Rightarrow> Node \<Rightarrow> bool \<Rightarrow> FlowGraph \<Rightarrow> error + FlowGraph" where
  "toggleDivision divNode tgt divState g =
     foldE (\<lambda>oa. enableArc oa divState) (outArcs (baseGraph g) divNode) g"

subsection \<open>Construction: allowMitosis\<close>

definition allowMitosis :: "FlowGraph \<Rightarrow> FullNode \<Rightarrow> real \<Rightarrow> error + (Arc \<times> FlowGraph)" where
  "allowMitosis g parent divisionCost =
     (let (duplicate, G1) = graphAddNode (baseGraph g);
          g1 = g\<lparr>baseGraph := G1,
                 nodeTimestepMap := (nodeTimestepMap g)(duplicate := nodeTimestepMap g (v parent))\<rparr>
      in case addArc g1 (sourceNode g1) duplicate [divisionCost] of
           Inl e \<Rightarrow> Inl e
         | Inr (arc, g2) \<Rightarrow>
             (case foldE
                     (\<lambda>oa h.
                        if \<not> isTarget h (target (baseGraph h) oa)
                        then (case arcCosts h oa of
                                [] \<Rightarrow> Inl EmptyContainer
                              | c0 # _ \<Rightarrow>
                                  (case addArc h duplicate (target (baseGraph h) oa) [c0] of
                                     Inl e \<Rightarrow> Inl e
                                   | Inr (_, h') \<Rightarrow> Inr h'))
                        else Inr h)
                     (outArcs (baseGraph g2) (v parent)) g2 of
                Inl e \<Rightarrow> Inl e
              | Inr g3 \<Rightarrow>
                  Inr (arc,
                       g3\<lparr>parentToDuplicateMap := (parentToDuplicateMap g3)(v parent \<mapsto> duplicate),
                          duplicateToParentMap := (duplicateToParentMap g3)(duplicate \<mapsto> v parent)\<rparr>)))"

subsection \<open>Residual refresh, augmentation and synchronisation\<close>

definition updateArc :: "Arc \<Rightarrow> FlowGraph \<Rightarrow> error + FlowGraph" where
  "updateArc arc g =
     (let flow = flowMap g arc;
          capacity = capacityMap g arc
      in if flow < 0 then Inl NegativeFlow
         else if flow > capacity then Inl FlowExceedsCapacity
         else
           (case residualGraph g of
              None \<Rightarrow> Inl NoResidualGraph
            | Some R \<Rightarrow>
                let forwardCost = getArcCost g arc flow;
                    R1 = residualUpdateArc R arc Forward forwardCost (capacity - flow);
                    backwardCost = negateCost (getArcCost g arc (flow - 1));
                    R2 = residualUpdateArc R1 arc Backward backwardCost flow
                in Inr (g\<lparr>residualGraph := Some R2\<rparr>)))"

type_synonym Path = "(Arc \<times> int) list"

text \<open>
  The first out-arc of a node, in iteration order, that ends where the given arc ends: the
  inner loops of \<open>augmentUnitFlow\<close> and \<open>synchronizeDivisionDuplicateArcFlows\<close> stop
  there with \<open>break\<close>.
\<close>

definition firstOutArcTo :: "Graph \<Rightarrow> Node \<Rightarrow> Node \<Rightarrow> Arc option" where
  "firstOutArcTo G n t = find (\<lambda>oa. target G oa = t) (outArcs G n)"

definition augmentArc :: "Arc \<times> int \<Rightarrow> FlowGraph \<Rightarrow> error + FlowGraph" where
  "augmentArc af g =
     (if \<not> validArc (baseGraph g) (fst af) then Inl InvalidArc
      else
        let g1 = g\<lparr>flowMap := (flowMap g)(fst af := flowMap g (fst af) + snd af)\<rparr>
        in case updateArc (fst af) g1 of
             Inl e \<Rightarrow> Inl e
           | Inr g2 \<Rightarrow>
               (case duplicateToParentMap g2 (source (baseGraph g2) (fst af)) of
                  Some parent \<Rightarrow>
                    (case firstOutArcTo (baseGraph g2) parent (target (baseGraph g2) (fst af)) of
                       None \<Rightarrow> Inr g2
                     | Some oa \<Rightarrow>
                         updateArc oa (g2\<lparr>flowMap := (flowMap g2)(oa := flowMap g2 oa + snd af)\<rparr>))
                | None \<Rightarrow>
                    (case parentToDuplicateMap g2 (source (baseGraph g2) (fst af)) of
                       Some duplicate \<Rightarrow>
                         (case firstOutArcTo (baseGraph g2) duplicate (target (baseGraph g2) (fst af)) of
                            None \<Rightarrow> Inr g2
                          | Some oa \<Rightarrow>
                              updateArc oa
                                (g2\<lparr>flowMap := (flowMap g2)(oa := min (flowMap g2 (fst af)) 1)\<rparr>))
                     | None \<Rightarrow> Inr g2)))"

definition augmentUnitFlow :: "Path \<Rightarrow> FlowGraph \<Rightarrow> error + FlowGraph" where
  "augmentUnitFlow p g = foldE augmentArc p g"

definition synchronizeArc :: "Node \<Rightarrow> Arc \<Rightarrow> FlowGraph \<Rightarrow> FlowGraph" where
  "synchronizeArc duplicate oa g =
     (let origFlow = flowMap g oa
      in case firstOutArcTo (baseGraph g) duplicate (target (baseGraph g) oa) of
           None \<Rightarrow> g
         | Some duplicateOa \<Rightarrow>
             let duplicateFlow = flowMap g duplicateOa;
                 flow = max origFlow duplicateFlow
             in g\<lparr>flowMap := (flowMap g)(duplicateOa := min flow 1, oa := flow)\<rparr>)"

text \<open>
  \<open>parentToDuplicateMap_\<close> is an ordered map: the outer loop meets the parents in the
  order of their ids.
\<close>

definition coupledNodes :: "FlowGraph \<Rightarrow> (Node \<times> Node) list" where
  "coupledNodes g =
     List.map_filter (\<lambda>n. map_option (Pair n) (parentToDuplicateMap g n))
       [0 ..< numNodes (baseGraph g)]"

definition synchronizeDivisionDuplicateArcFlows :: "FlowGraph \<Rightarrow> FlowGraph" where
  "synchronizeDivisionDuplicateArcFlows g =
     fold (\<lambda>coupled h.
             fold (synchronizeArc (snd coupled)) (outArcs (baseGraph h) (fst coupled)) h)
          (coupledNodes g) g"

subsection \<open>Enabling and disabling residual arcs\<close>

definition updateEnabledArc :: "Arc \<Rightarrow> FlowGraph \<Rightarrow> error + FlowGraph" where
  "updateEnabledArc arc g =
     (let src = source (baseGraph g) arc;
          tgt = target (baseGraph g) arc;
          toggled =
            (if parentToDuplicateMap g src \<noteq> None \<and> \<not> isTarget g tgt
             then (case parentToDuplicateMap g src of
                     None \<Rightarrow> Inr g
                   | Some duplicate \<Rightarrow>
                       if sumInFlow g src = 1 then toggleDivision duplicate tgt True g
                       else toggleDivision duplicate tgt False g)
             else (case duplicateToParentMap g tgt of
                     Some parent \<Rightarrow>
                       if flowMap g arc = 1 then toggleOutArcs parent False g
                       else toggleOutArcsButTarget parent True g
                   | None \<Rightarrow>
                       if src = sourceNode g then toggleInArcsBut tgt src (flowMap g arc = 0) g
                       else if isTarget g tgt then toggleOutArcsBut src tgt (flowMap g arc = 0) g
                       else Inr g))
      in case toggled of
           Inl e \<Rightarrow> Inl e
         | Inr g1 \<Rightarrow>
             if src \<noteq> sourceNode g1 \<and> \<not> isTarget g1 tgt \<and> arc \<notin> intermediateArcs g1
             then (case toggleDisappearanceArc src (sumOutFlow g1 src = 0) g1 of
                     Inl e \<Rightarrow> Inl e
                   | Inr g2 \<Rightarrow> toggleAppearanceArc tgt (sumInFlow g2 tgt = 0) g2)
             else Inr g1)"

definition updateEnabledArcs :: "Path \<Rightarrow> FlowGraph \<Rightarrow> error + FlowGraph" where
  "updateEnabledArcs p g = foldE (\<lambda>af. updateEnabledArc (fst af)) p g"

subsection \<open>Initialising the residual graph\<close>

definition initializeArc :: "Arc \<Rightarrow> FlowGraph \<Rightarrow> error + FlowGraph" where
  "initializeArc arc g =
     (case updateArc arc g of
        Inl e \<Rightarrow> Inl e
      | Inr g1 \<Rightarrow>
          (case enableArc arc True g1 of
             Inl e \<Rightarrow> Inl e
           | Inr g2 \<Rightarrow>
               (case residualGraph g2 of
                  None \<Rightarrow> Inl NoResidualGraph
                | Some R \<Rightarrow>
                    (case duplicateToParentMap g2 (target (baseGraph g2) arc) of
                       Some parent \<Rightarrow>
                         Inr (g2\<lparr>residualGraph := Some (addProvidedToken R arc Forward parent)\<rparr>)
                     | None \<Rightarrow>
                         if parentToDuplicateMap g2 (target (baseGraph g2) arc) \<noteq> None
                         then Inr (g2\<lparr>residualGraph :=
                                        Some (addForbiddenToken R arc Backward
                                                (target (baseGraph g2) arc))\<rparr>)
                         else Inr g2))))"

definition initializeResidualGraph :: "FlowGraph \<Rightarrow> bool \<Rightarrow> bool \<Rightarrow> error + FlowGraph" where
  "initializeResidualGraph g useBackArcs useOrderedNodeListInBF =
     (case foldE initializeArc (allArcs (baseGraph g))
             (g\<lparr>residualGraph := Some newResidualGraph\<rparr>) of
        Inl e \<Rightarrow> Inl e
      | Inr g1 \<Rightarrow> foldE updateEnabledArc (allArcs (baseGraph g1)) g1)"

subsection \<open>The tracking loop\<close>

type_synonym ShortestPathResult = "Path \<times> real"

text \<open>
  \<open>ResidualGraph::findShortestPath\<close> is not among the sources.  It is a parameter of the
  loop: any function that, from the state of the flow graph (which holds the residual
  graph) and the flag \<open>partialBFUpdates\<close>, gives a path with its cost and the residual
  graph it leaves behind.
\<close>

type_synonym ShortestPathFinder = "FlowGraph \<Rightarrow> bool \<Rightarrow> ShortestPathResult \<times> ResidualGraph"

text \<open>The messages that one iteration writes with \<open>DEBUG_MSG\<close>, in order.\<close>

datatype LogEntry =
    IterationBegins
  | FoundPath nat real
  | Augmented
  | IterationDone size_t real

text \<open>
  The local variables of \<open>maxFlowMinCostTracking\<close>, together with the flow graph and the
  messages written so far.
\<close>

record TrackingRun =
  graph :: FlowGraph
  result :: ShortestPathResult
  iter :: size_t
  currentEnergy :: real
  debugLog :: "LogEntry list"

text \<open>
  One pass through the body of the \<open>do ... while\<close> loop, with the test at its end: the
  loop is left, by \<open>break\<close>, by an exception or because the test fails, or it is
  repeated.
\<close>

datatype LoopStep = Leave "error + TrackingRun" | Repeat TrackingRun

definition trackingIteration ::
  "ShortestPathFinder \<Rightarrow> size_t \<Rightarrow> bool \<Rightarrow> TrackingRun \<Rightarrow> LoopStep" where
  "trackingIteration findShortestPath maxNumPaths partialBFUpdates s =
     (case residualGraph (graph s) of
        None \<Rightarrow> Leave (Inl NoResidualGraph)
      | Some _ \<Rightarrow>
          let found = findShortestPath (graph s) partialBFUpdates;
              s1 = s\<lparr>graph := (graph s)\<lparr>residualGraph := Some (snd found)\<rparr>,
                     result := fst found,
                     debugLog := debugLog s @
                        [IterationBegins, FoundPath (length (fst (fst found))) (snd (fst found))]\<rparr>
          in if snd (result s1) > - (1 / 10 ^ 8) then Leave (Inr s1)
             else if length (fst (result s1)) > 0 \<and> snd (result s1) < 0
             then (case augmentUnitFlow (fst (result s1)) (graph s1) of
                     Inl err \<Rightarrow> Leave (Inl err)
                   | Inr g2 \<Rightarrow>
                       (case updateEnabledArcs (fst (result s1)) g2 of
                          Inl err \<Rightarrow> Leave (Inl err)
                        | Inr g3 \<Rightarrow>
                            let s2 = s1\<lparr>graph := g3,
                                         currentEnergy := currentEnergy s1 + snd (result s1),
                                         iter := iter s1 + 1,
                                         debugLog := debugLog s1 @
                                           [Augmented,
                                            IterationDone (iter s1)
                                              (currentEnergy s1 + snd (result s1))]\<rparr>
                            in if maxNumPaths < 1 \<or> iter s2 < maxNumPaths
                               then Repeat s2 else Leave (Inr s2)))
             else Leave (Inr (s1\<lparr>iter := iter s1 + 1,
                                  debugLog := debugLog s1 @
                                    [IterationDone (iter s1) (currentEnergy s1)]\<rparr>)))"

partial_function (option) trackingLoop ::
  "ShortestPathFinder \<Rightarrow> size_t \<Rightarrow> bool \<Rightarrow> TrackingRun \<Rightarrow> (error + TrackingRun) option" where
  "trackingLoop findShortestPath maxNumPaths partialBFUpdates s =
     (case trackingIteration findShortestPath maxNumPaths partialBFUpdates s of
        Leave r \<Rightarrow> Some r
      | Repeat s' \<Rightarrow> trackingLoop findShortestPath maxNumPaths partialBFUpdates s')"

text \<open>
  The result is \<open>None\<close> when the loop runs forever; otherwise it is the exception or the
  state at the \<open>return\<close>, whose \<open>currentEnergy\<close> is the value returned.
\<close>

definition maxFlowMinCostTracking ::
  "ShortestPathFinder \<Rightarrow> FlowGraph \<Rightarrow> real \<Rightarrow> bool \<Rightarrow> size_t \<Rightarrow> bool \<Rightarrow> bool
     \<Rightarrow> (error + TrackingRun) option" where
  "maxFlowMinCostTracking findShortestPath g initialStateEnergy useBackArcs maxNumPaths
       useOrderedNodeListInBF partialBFUpdates =
     (case (if residualGraph g = None
            then initializeResidualGraph g useBackArcs useOrderedNodeListInBF
            else Inr g) of
        Inl err \<Rightarrow> Some (Inl err)
      | Inr g0 \<Rightarrow>
          trackingLoop findShortestPath maxNumPaths partialBFUpdates
            \<lparr>graph = g0, result = ([], 0), iter = 0, currentEnergy = initialStateEnergy,
             debugLog = []\<rparr>)"

subsection \<open>Invariant of the construction: the targets lie above every detection\<close>


subsection \<open>A sample arc\<close>

text \<open>
  One arc from the source to the target with the cost vector \<open>[3, 5]\<close>, capacity 2 and one
  unit of flow, with a fresh residual graph.
\<close>

definition exampleArc :: FlowGraph where
  "exampleArc =
     FlowGraph_new\<lparr>baseGraph := \<lparr>numNodes = 2, arcList = [(0, 1)]\<rparr>,
        arcCosts := (\<lambda>_. [])(0 := [3, 5]), flowMap := (\<lambda>_. 0)(0 := 1),
        capacityMap := (\<lambda>_. 0)(0 := 2), residualGraph := Some newResidualGraph\<rparr>"

subsection \<open>A graph with one detection\<close>

text \<open>The detection returned by the first \<open>addNode\<close> on a new graph, and the graph after it.\<close>

definition firstDetection :: "FullNode \<times> FlowGraph" where
  "firstDetection = projr (addNode FlowGraph_new [1] 0)"

subsection \<open>Reading the log of a run\<close>

text \<open>
  The energies reported at the end of the iterations, in order; the condition under which
  the loop is meant to stop; the invariant of the loop for a start energy \<open>e0\<close>; and the
  bound on what a run with a cap does.
\<close>

definition loggedEnergies :: "LogEntry list \<Rightarrow> real list" where
  "loggedEnergies l = concat (map (\<lambda>x. case x of IterationDone _ e \<Rightarrow> [e] | _ \<Rightarrow> []) l)"

definition stopCondition :: "TrackingRun \<Rightarrow> bool" where
  "stopCondition s = (snd (result s) > - (1 / 10 ^ 8) \<or> fst (result s) = [])"

definition energyDescends :: "real \<Rightarrow> TrackingRun \<Rightarrow> bool" where
  "energyDescends e0 s =
     (sorted_wrt (\<ge>) (e0 # loggedEnergies (debugLog s)) \<and>
      currentEnergy s = last (e0 # loggedEnergies (debugLog s)))"

definition withinCap :: "size_t \<Rightarrow> TrackingRun \<Rightarrow> bool" where
  "withinCap M s =
     (count_list (debugLog s) Augmented \<le> unat M \<and>
      count_list (debugLog s) IterationBegins \<le> unat M \<and> iter s \<le> M)"

text \<open>
  The state of the loop after \<open>n\<close> passes through its body that each went back to the
  loop head; \<open>None\<close> when one of them left the loop.
\<close>

fun iterations :: "ShortestPathFinder \<Rightarrow> size_t \<Rightarrow> bool \<Rightarrow> nat \<Rightarrow> TrackingRun \<Rightarrow> TrackingRun option" where
  "iterations findShortestPath maxNumPaths partialBFUpdates 0 s = Some s"
| "iterations findShortestPath maxNumPaths partialBFUpdates (Suc n) s =
     (case trackingIteration findShortestPath maxNumPaths partialBFUpdates s of
        Repeat s' \<Rightarrow> iterations findShortestPath maxNumPaths partialBFUpdates n s'
      | Leave r \<Rightarrow> None)"

subsection \<open>Predicates on states\<close>

text \<open>
  Two residual graphs that differ in enabled flags only, and two states of the flow graph
  that differ in the enabled flags of the residual graph only.
\<close>

definition flagsOnly :: "ResidualGraph \<Rightarrow> ResidualGraph \<Rightarrow> bool" where
  "flagsOnly R R' = (\<forall>x. R' x = (R x)\<lparr>enabled := enabled (R' x)\<rparr>)"

definition togglesOnly :: "FlowGraph \<Rightarrow> FlowGraph \<Rightarrow> bool" where
  "togglesOnly g g' =
     (\<exists>R R'. residualGraph g = Some R \<and> g' = g\<lparr>residualGraph := Some R'\<rparr> \<and> flagsOnly R R')"

text \<open>Every arc of the graph starts and ends at a node of the graph.\<close>

definition danglingFree :: "Graph \<Rightarrow> bool" where
  "danglingFree G = (\<forall>e \<in> set (arcList G). fst e < numNodes G \<and> snd e < numNodes G)"

text \<open>Every arc carries a flow between 0 and its capacity.\<close>

definition flowsWithinCapacity :: "FlowGraph \<Rightarrow> bool" where
  "flowsWithinCapacity g =
     (\<forall>x. validArc (baseGraph g) x \<longrightarrow> 0 \<le> flowMap g x \<and> flowMap g x \<le> capacityMap g x)"

text \<open>
  The tokens that the first loop of \<open>initializeResidualGraph\<close> adds for the arcs of a set
  \<open>A\<close>: on the forward residual arc of an arc into a duplicate, the id of the parent
  of that duplicate; on the backward residual arc of an arc into a parent (that is not a
  duplicate as well), the id of that parent.
\<close>

definition tokensAdded ::
  "FlowGraph \<Rightarrow> Arc set \<Rightarrow> ResidualGraph \<Rightarrow> ResidualGraph \<Rightarrow> bool" where
  "tokensAdded g A R R' =
     (\<forall>x d.
        provided (R' (x, d)) = provided (R (x, d)) \<union>
          (if d = Forward \<and> x \<in> A
           then set_option (duplicateToParentMap g (target (baseGraph g) x)) else {}) \<and>
        forbidden (R' (x, d)) = forbidden (R (x, d)) \<union>
          (if d = Backward \<and> x \<in> A \<and> duplicateToParentMap g (target (baseGraph g) x) = None
              \<and> parentToDuplicateMap g (target (baseGraph g) x) \<noteq> None
           then {target (baseGraph g) x} else {}))"

text \<open>
  Two detections A (timestep 0) and B (timestep 1), the arc from A to B, and a division of
  A.  Nodes: 0 source, 1 target, 2 and 3 the entry and exit of A, 4 and 5 those of B, 6 the
  duplicate of A.  Arcs: 0 and 1 the detection arcs, 2 from A to B, 3 the division arc from
  the source to the duplicate, 4 the mirrored arc from the duplicate to B.
\<close>

definition divisionExample :: FlowGraph where
  "divisionExample =
     (let (A, g1) = projr (addNode FlowGraph_new [- 2] 0);
          (B, g2) = projr (addNode g1 [- 3] 1);
          (_, g3) = projr (addArcFull g2 A B [0]);
          (_, g4) = projr (allowMitosis g3 A (- 4))
      in g4)"

subsection \<open>The flows that an augmentation leaves\<close>

text \<open>
  \<open>augmentUnitFlow\<close> in terms of the flow map alone.  The arc coupled to an arc of a
  path is the one that the inner loops of \<open>augmentUnitFlow\<close> find: for an arc out of a
  duplicate, the first out-arc of the parent with the same target; for an arc out of a
  parent, the first out-arc of the duplicate with the same target.  \<open>augmentedFlow\<close> is
  the flow map after one entry of the path, \<open>augmentFeasible\<close> says that the two checks
  of \<open>updateArc\<close> pass for it; \<open>flowsAlong\<close> and \<open>pathFeasible\<close> do the same for a
  whole path.
\<close>

definition coupledArcOf :: "FlowGraph \<Rightarrow> Arc \<Rightarrow> Arc option" where
  "coupledArcOf g x =
     (case duplicateToParentMap g (source (baseGraph g) x) of
        Some parent \<Rightarrow> firstOutArcTo (baseGraph g) parent (target (baseGraph g) x)
      | None \<Rightarrow>
          (case parentToDuplicateMap g (source (baseGraph g) x) of
             Some duplicate \<Rightarrow> firstOutArcTo (baseGraph g) duplicate (target (baseGraph g) x)
           | None \<Rightarrow> None))"

definition augmentedFlow :: "FlowGraph \<Rightarrow> (Arc \<Rightarrow> int) \<Rightarrow> Arc \<times> int \<Rightarrow> Arc \<Rightarrow> int" where
  "augmentedFlow g fm af =
     (let fm1 = fm(fst af := fm (fst af) + snd af)
      in case coupledArcOf g (fst af) of
           None \<Rightarrow> fm1
         | Some oa \<Rightarrow>
             if duplicateToParentMap g (source (baseGraph g) (fst af)) \<noteq> None
             then fm1(oa := fm1 oa + snd af)
             else fm1(oa := min (fm1 (fst af)) 1))"

definition augmentFeasible :: "FlowGraph \<Rightarrow> (Arc \<Rightarrow> int) \<Rightarrow> Arc \<times> int \<Rightarrow> bool" where
  "augmentFeasible g fm af =
     (validArc (baseGraph g) (fst af) \<and>
      0 \<le> fm (fst af) + snd af \<and> fm (fst af) + snd af \<le> capacityMap g (fst af) \<and>
      (case coupledArcOf g (fst af) of
         None \<Rightarrow> True
       | Some oa \<Rightarrow> 0 \<le> augmentedFlow g fm af oa \<and> augmentedFlow g fm af oa \<le> capacityMap g oa))"

fun flowsAlong :: "FlowGraph \<Rightarrow> (Arc \<Rightarrow> int) \<Rightarrow> Path \<Rightarrow> Arc \<Rightarrow> int" where
  "flowsAlong g fm [] = fm"
| "flowsAlong g fm (af # p) = flowsAlong g (augmentedFlow g fm af) p"

fun pathFeasible :: "FlowGraph \<Rightarrow> (Arc \<Rightarrow> int) \<Rightarrow> Path \<Rightarrow> bool" where
  "pathFeasible g fm [] = True"
| "pathFeasible g fm (af # p) =
     (augmentFeasible g fm af \<and> pathFeasible g (augmentedFlow g fm af) p)"

subsection \<open>A run of the tracking loop\<close>

text \<open>
  One detection with cost \<open>[-5]\<close>, an appearance arc and a disappearance arc with cost
  \<open>[1]\<close> each.  Nodes: 0 source, 1 target, 2 and 3 the detection.  Arcs: 0 the detection
  arc, 1 the appearance arc, 2 the disappearance arc.  The search stands in for
  \<open>findShortestPath\<close> on this graph: while the appearance arc is unused it returns the
  path source, detection, target with cost -3, afterwards the empty path.
\<close>

definition singleCell :: FlowGraph where
  "singleCell =
     (let (A, g1) = projr (addNode FlowGraph_new [- 5] 0);
          (_, g2) = projr (addArc g1 (sourceNode g1) (u A) [1]);
          (_, g3) = projr (addArc g2 (v A) (hd (targets g2)) [1])
      in g3)"

definition singleCellFinder :: ShortestPathFinder where
  "singleCellFinder g partialBFUpdates =
     (if flowMap g 1 = 0 then ([(1, 1), (0, 1), (2, 1)], - 3) else ([], 0),
      case residualGraph g of Some R \<Rightarrow> R | None \<Rightarrow> newResidualGraph)"

text \<open>The loop state of this graph before the first augmentation.\<close>

definition singleCellStart :: TrackingRun where
  "singleCellStart =
     \<lparr>graph = singleCell\<lparr>residualGraph := Some newResidualGraph\<rparr>, result = ([], 0),
      iter = 0, currentEnergy = 10, debugLog = []\<rparr>"

text \<open>
  The same three arcs for a detection that may hold up to \<open>n + 1\<close> objects: every cost
  vector has \<open>n + 1\<close> entries, so every arc has capacity \<open>n + 1\<close>.  The search stands in
  for \<open>findShortestPath\<close> on this graph: it returns the path source, detection, target
  with cost -3 while the appearance arc carries at most \<open>n\<close> units, afterwards the empty
  path.
\<close>

definition denseCell :: "nat \<Rightarrow> FlowGraph" where
  "denseCell n =
     (let (A, g1) = projr (addNode FlowGraph_new (replicate (Suc n) (- 5)) 0);
          (_, g2) = projr (addArc g1 (sourceNode g1) (u A) (replicate (Suc n) 1));
          (_, g3) = projr (addArc g2 (v A) (hd (targets g2)) (replicate (Suc n) 1))
      in g3)"

definition denseCellFinder :: "nat \<Rightarrow> ShortestPathFinder" where
  "denseCellFinder n g partialBFUpdates =
     (if flowMap g 1 \<le> int n then ([(1, 1), (0, 1), (2, 1)], - 3) else ([], 0),
      case residualGraph g of Some R \<Rightarrow> R | None \<Rightarrow> newResidualGraph)"

subsection \<open>Coupled arcs of a division\<close>

text \<open>
  Two arcs are coupled when the first leaves a parent, the second leaves the duplicate
  of that parent, and both end at the same node.
\<close>

definition coupled :: "FlowGraph \<Rightarrow> Arc \<Rightarrow> Arc \<Rightarrow> bool" where
  "coupled g x y =
     (validArc (baseGraph g) x \<and> validArc (baseGraph g) y \<and>
      target (baseGraph g) x = target (baseGraph g) y \<and>
      parentToDuplicateMap g (source (baseGraph g) x) = Some (source (baseGraph g) y))"

text \<open>
  No two out-arcs of a node end at the same node; and the condition on the division
  maps under which every arc has at most one coupled arc: every parent is a node of
  the graph and is recorded as the parent of its duplicate, no duplicate is itself a
  parent, and the out-arcs of parents and duplicates have distinct targets.
\<close>

definition uniqueTargets :: "Graph \<Rightarrow> Node \<Rightarrow> bool" where
  "uniqueTargets G n =
     (\<forall>x y. validArc G x \<and> validArc G y \<and> source G x = n \<and> source G y = n \<and>
            target G x = target G y \<longrightarrow> x = y)"

definition divisionWellFormed :: "FlowGraph \<Rightarrow> bool" where
  "divisionWellFormed g =
     (\<forall>n d. parentToDuplicateMap g n = Some d \<longrightarrow>
          duplicateToParentMap g d = Some n \<and> n < numNodes (baseGraph g) \<and>
          parentToDuplicateMap g d = None \<and>
          uniqueTargets (baseGraph g) n \<and> uniqueTargets (baseGraph g) d)"

text \<open>
  The invariant of the loops of \<open>synchronizeDivisionDuplicateArcFlows\<close> on a graph
  \<open>g\<close>: the pairs whose parent arc is in \<open>S\<close> hold the synchronized flows, every arc
  outside these pairs holds the flow it has in \<open>g\<close>.
\<close>

definition synchronized :: "FlowGraph \<Rightarrow> Arc set \<Rightarrow> (Arc \<Rightarrow> int) \<Rightarrow> bool" where
  "synchronized g S fm =
     ((\<forall>x y. x \<in> S \<and> coupled g x y \<longrightarrow>
          fm x = max (flowMap g x) (flowMap g y) \<and>
          fm y = min (max (flowMap g x) (flowMap g y)) 1) \<and>
      (\<forall>z. (\<forall>x y. x \<in> S \<and> coupled g x y \<longrightarrow> z \<noteq> x \<and> z \<noteq> y) \<longrightarrow> fm z = flowMap g z))"

text \<open>
  Two detections joined by two parallel arcs, the first of them carrying one unit of
  flow, and a division of the first detection.  Arcs: 0 and 1 the detection arcs, 2 and
  3 the two arcs between the detections, 4 the division arc, 5 and 6 the copies of 2
  and 3 that leave the duplicate.
\<close>

definition parallelExample :: FlowGraph where
  "parallelExample =
     (let (A, g1) = projr (addNode FlowGraph_new [- 2] 0);
          (B, g2) = projr (addNode g1 [- 3] 1);
          (x, g3) = projr (addArcFull g2 A B [0]);
          (_, g4) = projr (addArcFull g3 A B [0]);
          (_, g5) = projr (allowMitosis g4 A (- 4))
      in g5\<lparr>flowMap := (flowMap g5)(x := 1)\<rparr>)"

section \<open>Verified properties\<close>

subsection \<open>addNode: timesteps of a detection and of the targets\<close>
















subsection \<open>updateArc: the residual arcs of a base arc\<close>

text \<open>
  Claim C4.  For a base arc with flow \<open>f\<close> and capacity \<open>k\<close>, \<open>0 \<le> f \<le> k\<close>, the residual
  refresh \<open>updateArc\<close> succeeds and leaves the forward residual arc with residual
  capacity \<open>k - f\<close> and residual cost \<open>arcCost(a, f)\<close>, and the backward residual arc
  with residual capacity \<open>f\<close> and residual cost \<open>- arcCost(a, f - 1)\<close>.  It changes nothing
  else: not the flow graph, not the flags and tokens of the two residual arcs, and no
  residual arc of another base arc.
\<close>

theorem updateArc_residual_arcs:
  assumes "residualGraph g = Some R"
    and "0 \<le> flowMap g arc" and "flowMap g arc \<le> capacityMap g arc"
  shows "\<exists>R'. updateArc arc g = Inr (g\<lparr>residualGraph := Some R'\<rparr>) \<and>
     residualCapacity (R' (arc, Forward)) = capacityMap g arc - flowMap g arc \<and>
     residualCost (R' (arc, Forward)) = getArcCost g arc (flowMap g arc) \<and>
     residualCapacity (R' (arc, Backward)) = flowMap g arc \<and>
     residualCost (R' (arc, Backward)) = negateCost (getArcCost g arc (flowMap g arc - 1)) \<and>
     (\<forall>d. enabled (R' (arc, d)) = enabled (R (arc, d)) \<and>
          provided (R' (arc, d)) = provided (R (arc, d)) \<and>
          forbidden (R' (arc, d)) = forbidden (R (arc, d))) \<and>
     (\<forall>b d. b \<noteq> arc \<longrightarrow> R' (b, d) = R (b, d))"
proof -
  let ?R' = "residualUpdateArc
      (residualUpdateArc R arc Forward (getArcCost g arc (flowMap g arc))
         (capacityMap g arc - flowMap g arc))
      arc Backward (negateCost (getArcCost g arc (flowMap g arc - 1))) (flowMap g arc)"
  have run: "updateArc arc g = Inr (g\<lparr>residualGraph := Some ?R'\<rparr>)"
    using assms by (simp add: updateArc_def Let_def)
  have tokens: "enabled (?R' (arc, d)) = enabled (R (arc, d)) \<and>
          provided (?R' (arc, d)) = provided (R (arc, d)) \<and>
          forbidden (?R' (arc, d)) = forbidden (R (arc, d))" for d
    by (cases d) (simp_all add: residualUpdateArc_def)
  have others: "b \<noteq> arc \<longrightarrow> ?R' (b, d) = R (b, d)" for b d
    by (simp add: residualUpdateArc_def)
  have vals: "residualCapacity (?R' (arc, Forward)) = capacityMap g arc - flowMap g arc"
    "residualCost (?R' (arc, Forward)) = getArcCost g arc (flowMap g arc)"
    "residualCapacity (?R' (arc, Backward)) = flowMap g arc"
    "residualCost (?R' (arc, Backward)) = negateCost (getArcCost g arc (flowMap g arc - 1))"
    by (simp_all add: residualUpdateArc_def)
  show ?thesis
    using run tokens others vals by blast
qed


text \<open>The hypotheses of C4 hold for the sample arc: one more unit costs 5, undoing one gives back 3.\<close>

theorem updateArc_residual_arcs_witness:
  "residualGraph exampleArc = Some newResidualGraph \<and>
   0 \<le> flowMap exampleArc 0 \<and> flowMap exampleArc 0 \<le> capacityMap exampleArc 0 \<and>
   (\<exists>R'. updateArc 0 exampleArc = Inr (exampleArc\<lparr>residualGraph := Some R'\<rparr>) \<and>
      residualCapacity (R' (0, Forward)) = 1 \<and> residualCost (R' (0, Forward)) = Finite 5 \<and>
      residualCapacity (R' (0, Backward)) = 1 \<and> residualCost (R' (0, Backward)) = Finite (- 3))"
proof -
  have h: "residualGraph exampleArc = Some newResidualGraph"
    "0 \<le> flowMap exampleArc 0" "flowMap exampleArc 0 \<le> capacityMap exampleArc 0"
    by (simp_all add: exampleArc_def)
  have c: "getArcCost exampleArc 0 (flowMap exampleArc 0) = Finite 5"
    "negateCost (getArcCost exampleArc 0 (flowMap exampleArc 0 - 1)) = Finite (- 3)"
    "capacityMap exampleArc 0 - flowMap exampleArc 0 = 1" "flowMap exampleArc 0 = 1"
    by (simp_all add: exampleArc_def getArcCost_def)
  from updateArc_residual_arcs [OF h] c h show ?thesis by auto
qed

subsection \<open>allowMitosis on a parent without out-arcs\<close>

lemma outArcs_snoc:
  "outArcs (G\<lparr>arcList := arcList G @ [(s, t)]\<rparr>) n =
     (if s = n then [length (arcList G)] else []) @ outArcs G n"
proof -
  have "filter (\<lambda>x. fst ((arcList G @ [e]) ! x) = n) (rev [0..<length (arcList G)])
      = filter (\<lambda>x. fst (arcList G ! x) = n) (rev [0..<length (arcList G)])" for e
    by (rule filter_cong) (simp_all add: nth_append)
  then show ?thesis
    by (simp add: outArcs_def newestFirst_def source_def)
qed

text \<open>
  Claim C5, as the code has it.  \<open>allowMitosis\<close> does not look at the number of out-arcs
  of the parent.  Called on a parent that has no out-arc yet (and is not the source), it
  succeeds: it adds the duplicate and the division arc from the source to the duplicate,
  returns that arc, mirrors no arc, and records the pair in both division maps.
\<close>

theorem allowMitosis_without_out_arcs:
  assumes "outArcs (baseGraph g) (v parent) = []" and "v parent \<noteq> sourceNode g"
  shows "allowMitosis g parent divisionCost =
     Inr (length (arcList (baseGraph g)),
          g\<lparr>baseGraph := \<lparr>numNodes = Suc (numNodes (baseGraph g)),
                          arcList = arcList (baseGraph g) @ [(sourceNode g, numNodes (baseGraph g))]\<rparr>,
            nodeTimestepMap := (nodeTimestepMap g)(numNodes (baseGraph g) := nodeTimestepMap g (v parent)),
            arcCosts := (arcCosts g)(length (arcList (baseGraph g)) := [divisionCost]),
            flowMap := (flowMap g)(length (arcList (baseGraph g)) := 0),
            capacityMap := (capacityMap g)(length (arcList (baseGraph g)) := 1),
            parentToDuplicateMap := (parentToDuplicateMap g)(v parent \<mapsto> numNodes (baseGraph g)),
            duplicateToParentMap := (duplicateToParentMap g)(numNodes (baseGraph g) \<mapsto> v parent)\<rparr>)"
proof -
  have "outArcs ((baseGraph g)\<lparr>numNodes := Suc (numNodes (baseGraph g)),
           arcList := arcList (baseGraph g) @ [(sourceNode g, numNodes (baseGraph g))]\<rparr>) (v parent) = []"
    using assms outArcs_snoc [of "(baseGraph g)\<lparr>numNodes := Suc (numNodes (baseGraph g))\<rparr>" "sourceNode g" "numNodes (baseGraph g)" "v parent"]
    by (simp add: outArcs_def newestFirst_def source_def)
  then show ?thesis
    by (simp add: allowMitosis_def addArc_def graphAddNode_def graphAddArc_def Let_def)
qed

lemma firstDetection_eq:
  "firstDetection =
     (\<lparr>u = 2, v = 3, a = 0\<rparr>,
      \<lparr>baseGraph = \<lparr>numNodes = 4, arcList = [(2, 3)]\<rparr>, sourceNode = 0, targets = [1],
       nodeTimestepMap = (\<lambda>_. 0)(0 := 0, 1 := 3, 2 := 1, 3 := 2),
       arcCosts = (\<lambda>_. [])(0 := [1]), flowMap = (\<lambda>_. 0)(0 := 0),
       capacityMap = (\<lambda>_. 0)(0 := 1), intermediateArcs = {0},
       parentToDuplicateMap = Map.empty, duplicateToParentMap = Map.empty,
       residualGraph = None\<rparr>)"
  by (simp add: firstDetection_def addNode_def addArc_def graphAddNode_def graphAddArc_def
        FlowGraph_new_def emptyGraph_def Let_def fun_eq_iff)

text \<open>
  Claim C5 as stated fails: on the first detection of a new graph, which has no out-arc,
  \<open>allowMitosis\<close> reports no error and returns the division arc, the arc with id 1.
\<close>

theorem allowMitosis_without_out_arcs_counterexample:
  "outArcs (baseGraph (snd firstDetection)) (v (fst firstDetection)) = [] \<and>
   \<not> isl (allowMitosis (snd firstDetection) (fst firstDetection) 5) \<and>
   fst (projr (allowMitosis (snd firstDetection) (fst firstDetection) 5)) = 1"
  by (simp add: firstDetection_eq allowMitosis_def addArc_def graphAddNode_def graphAddArc_def
        Let_def outArcs_def newestFirst_def source_def)

text \<open>The hypotheses of C5 hold for the first detection of a new graph.\<close>

theorem allowMitosis_without_out_arcs_witness:
  "outArcs (baseGraph (snd firstDetection)) (v (fst firstDetection)) = [] \<and>
   v (fst firstDetection) \<noteq> sourceNode (snd firstDetection) \<and>
   (\<exists>g'. allowMitosis (snd firstDetection) (fst firstDetection) 5 = Inr (1, g') \<and>
      arcList (baseGraph g') = [(2, 3), (0, 4)] \<and>
      parentToDuplicateMap g' 3 = Some 4 \<and> duplicateToParentMap g' 4 = Some 3)"
proof -
  have h: "outArcs (baseGraph (snd firstDetection)) (v (fst firstDetection)) = []"
    "v (fst firstDetection) \<noteq> sourceNode (snd firstDetection)"
    by (simp_all add: firstDetection_eq outArcs_def newestFirst_def source_def)
  show ?thesis
    using h allowMitosis_without_out_arcs [OF h, of 5]
    by (simp add: firstDetection_eq)
qed

subsection \<open>The toggles change enabled flags only, and never fail\<close>


lemma flagsOnly_refl: "flagsOnly R R"
  by (simp add: flagsOnly_def)

lemma flagsOnly_trans: "flagsOnly R R' \<Longrightarrow> flagsOnly R' R'' \<Longrightarrow> flagsOnly R R''"
  unfolding flagsOnly_def
proof (intro allI)
  fix x assume a: "\<forall>x. R' x = (R x)\<lparr>enabled := enabled (R' x)\<rparr>"
    and b: "\<forall>x. R'' x = (R' x)\<lparr>enabled := enabled (R'' x)\<rparr>"
  have "R'' x = (R' x)\<lparr>enabled := enabled (R'' x)\<rparr>" using b by blast
  also have "R' x = (R x)\<lparr>enabled := enabled (R' x)\<rparr>" using a by blast
  finally show "R'' x = (R x)\<lparr>enabled := enabled (R'' x)\<rparr>" by simp
qed

lemma togglesOnly_refl: "residualGraph g \<noteq> None \<Longrightarrow> togglesOnly g g"
proof -
  assume "residualGraph g \<noteq> None"
  then obtain R where R: "residualGraph g = Some R" by blast
  then have "g = g\<lparr>residualGraph := Some R\<rparr>" by (cases g) simp
  with R flagsOnly_refl show ?thesis unfolding togglesOnly_def by blast
qed

lemma togglesOnly_trans:
  assumes "togglesOnly g g'" and "togglesOnly g' g''" shows "togglesOnly g g''"
proof -
  from assms(1) obtain R R' where 1: "residualGraph g = Some R" "g' = g\<lparr>residualGraph := Some R'\<rparr>"
    "flagsOnly R R'" unfolding togglesOnly_def by blast
  from assms(2) obtain S S' where 2: "residualGraph g' = Some S" "g'' = g'\<lparr>residualGraph := Some S'\<rparr>"
    "flagsOnly S S'" unfolding togglesOnly_def by blast
  have "S = R'" using 1(2) 2(1) by simp
  then have "flagsOnly R S'" using 1(3) 2(3) flagsOnly_trans by blast
  moreover have "g'' = g\<lparr>residualGraph := Some S'\<rparr>" using 1(2) 2(2) by simp
  ultimately show ?thesis using 1(1) unfolding togglesOnly_def by blast
qed

lemma togglesOnly_fields:
  assumes "togglesOnly g g'"
  shows "baseGraph g' = baseGraph g" "sourceNode g' = sourceNode g" "targets g' = targets g"
    "flowMap g' = flowMap g" "capacityMap g' = capacityMap g" "arcCosts g' = arcCosts g"
    "intermediateArcs g' = intermediateArcs g" "nodeTimestepMap g' = nodeTimestepMap g"
    "parentToDuplicateMap g' = parentToDuplicateMap g"
    "duplicateToParentMap g' = duplicateToParentMap g"
    "residualGraph g' \<noteq> None" "residualGraph g \<noteq> None"
  using assms by (auto simp: togglesOnly_def)

lemma enableArc_toggles:
  assumes "residualGraph g \<noteq> None"
  shows "\<exists>g'. enableArc arc b g = Inr g' \<and> togglesOnly g g'"
proof -
  from assms obtain R where R: "residualGraph g = Some R" by blast
  have "flagsOnly R (residualEnableArc R arc b)"
    by (simp add: flagsOnly_def residualEnableArc_def)
  then show ?thesis using R by (auto simp: enableArc_def togglesOnly_def)
qed

lemma foldE_toggles:
  assumes f: "\<And>x h. residualGraph h \<noteq> None \<Longrightarrow> \<exists>h'. f x h = Inr h' \<and> togglesOnly h h'"
    and "residualGraph g \<noteq> None"
  shows "\<exists>g'. foldE f xs g = Inr g' \<and> togglesOnly g g'"
  using assms(2)
proof (induction xs arbitrary: g)
  case Nil
  then show ?case by (simp add: togglesOnly_refl)
next
  case (Cons x xs)
  from f [OF Cons.prems] obtain h where h: "f x g = Inr h" "togglesOnly g h" by blast
  from Cons.IH [OF togglesOnly_fields(11) [OF h(2)]]
  obtain g' where "foldE f xs h = Inr g'" "togglesOnly h g'" by blast
  with h show ?case by (auto intro: togglesOnly_trans)
qed

lemma toggles_all:
  assumes "residualGraph g \<noteq> None"
  shows "\<exists>g'. toggleOutArcs n b g = Inr g' \<and> togglesOnly g g'"
    and "\<exists>g'. toggleOutArcsBut n x b g = Inr g' \<and> togglesOnly g g'"
    and "\<exists>g'. toggleOutArcsButTarget n b g = Inr g' \<and> togglesOnly g g'"
    and "\<exists>g'. toggleInArcsBut n x b g = Inr g' \<and> togglesOnly g g'"
    and "\<exists>g'. toggleAppearanceArc n b g = Inr g' \<and> togglesOnly g g'"
    and "\<exists>g'. toggleDisappearanceArc n b g = Inr g' \<and> togglesOnly g g'"
    and "\<exists>g'. toggleDivision n x b g = Inr g' \<and> togglesOnly g g'"
  unfolding toggleOutArcs_def toggleOutArcsBut_def toggleOutArcsButTarget_def
    toggleInArcsBut_def toggleAppearanceArc_def toggleDisappearanceArc_def toggleDivision_def
  using foldE_toggles [where f = "\<lambda>oa. enableArc oa b" and g = g, OF enableArc_toggles assms]
  by blast+

lemma updateEnabledArc_toggles:
  assumes "residualGraph g \<noteq> None"
  shows "\<exists>g'. updateEnabledArc arc g = Inr g' \<and> togglesOnly g g'"
proof -
  let ?src = "source (baseGraph g) arc" and ?tgt = "target (baseGraph g) arc"
  let ?toggled = "(if parentToDuplicateMap g ?src \<noteq> None \<and> \<not> isTarget g ?tgt
             then (case parentToDuplicateMap g ?src of
                     None \<Rightarrow> Inr g
                   | Some duplicate \<Rightarrow>
                       if sumInFlow g ?src = 1 then toggleDivision duplicate ?tgt True g
                       else toggleDivision duplicate ?tgt False g)
             else (case duplicateToParentMap g ?tgt of
                     Some parent \<Rightarrow>
                       if flowMap g arc = 1 then toggleOutArcs parent False g
                       else toggleOutArcsButTarget parent True g
                   | None \<Rightarrow>
                       if ?src = sourceNode g then toggleInArcsBut ?tgt ?src (flowMap g arc = 0) g
                       else if isTarget g ?tgt then toggleOutArcsBut ?src ?tgt (flowMap g arc = 0) g
                       else Inr g))"
  have "\<exists>g1. ?toggled = Inr g1 \<and> togglesOnly g g1"
    using toggles_all [OF assms] togglesOnly_refl [OF assms]
    by (auto split: option.splits)
  then obtain g1 where g1: "?toggled = Inr g1" "togglesOnly g g1" by blast
  note f1 = togglesOnly_fields [OF g1(2)]
  show ?thesis
  proof (cases "?src \<noteq> sourceNode g1 \<and> \<not> isTarget g1 ?tgt \<and> arc \<notin> intermediateArcs g1")
    case False
    then have "updateEnabledArc arc g = Inr g1"
      unfolding updateEnabledArc_def Let_def g1(1) by auto
    with g1(2) show ?thesis by blast
  next
    case True
    from toggles_all(6) [OF f1(11)] obtain g2 where
      g2: "toggleDisappearanceArc ?src (sumOutFlow g1 ?src = 0) g1 = Inr g2" "togglesOnly g1 g2"
      by blast
    from toggles_all(5) [OF togglesOnly_fields(11) [OF g2(2)]] obtain g3 where
      g3: "toggleAppearanceArc ?tgt (sumInFlow g2 ?tgt = 0) g2 = Inr g3" "togglesOnly g2 g3"
      by blast
    have "updateEnabledArc arc g = Inr g3"
      unfolding updateEnabledArc_def Let_def g1(1) using True g2(1) g3(1) by simp
    moreover have "togglesOnly g g3" using g1(2) g2(2) g3(2) togglesOnly_trans by blast
    ultimately show ?thesis by blast
  qed
qed

lemma updateEnabledArcs_toggles:
  assumes "residualGraph g \<noteq> None"
  shows "\<exists>g'. updateEnabledArcs p g = Inr g' \<and> togglesOnly g g'"
  unfolding updateEnabledArcs_def
  by (rule foldE_toggles [OF updateEnabledArc_toggles assms])

subsection \<open>initializeResidualGraph: the division tokens\<close>


lemma set_outArcs: "set (outArcs G n) = {x. validArc G x \<and> source G x = n}"
  by (auto simp: outArcs_def newestFirst_def validArc_def)

lemma set_inArcs: "set (inArcs G n) = {x. validArc G x \<and> target G x = n}"
  by (auto simp: inArcs_def newestFirst_def validArc_def)

lemma set_allArcs: "set (allArcs G) = {x. validArc G x \<and> source G x < numNodes G}"
  by (auto simp: allArcs_def set_outArcs)

lemma set_allArcs_danglingFree: "danglingFree G \<Longrightarrow> set (allArcs G) = {x. validArc G x}"
  by (auto simp: set_allArcs danglingFree_def validArc_def source_def)

lemma initializeArc_tokens:
  assumes R: "residualGraph g = Some R"
    and range: "0 \<le> flowMap g arc" "flowMap g arc \<le> capacityMap g arc"
  shows "\<exists>R'. initializeArc arc g = Inr (g\<lparr>residualGraph := Some R'\<rparr>) \<and> tokensAdded g {arc} R R'"
proof -
  let ?R1 = "residualUpdateArc
      (residualUpdateArc R arc Forward (getArcCost g arc (flowMap g arc))
         (capacityMap g arc - flowMap g arc))
      arc Backward (negateCost (getArcCost g arc (flowMap g arc - 1))) (flowMap g arc)"
  let ?R2 = "residualEnableArc ?R1 arc True"
  let ?t = "target (baseGraph g) arc"
  have u: "updateArc arc g = Inr (g\<lparr>residualGraph := Some ?R1\<rparr>)"
    using R range by (simp add: updateArc_def Let_def)
  have e: "enableArc arc True (g\<lparr>residualGraph := Some ?R1\<rparr>) = Inr (g\<lparr>residualGraph := Some ?R2\<rparr>)"
    by (simp add: enableArc_def)
  have t2: "provided (?R2 x) = provided (R x)" "forbidden (?R2 x) = forbidden (R x)" for x
    by (simp_all add: residualEnableArc_def residualUpdateArc_def)
  show ?thesis
  proof (cases "duplicateToParentMap g ?t")
    case (Some parent)
    have "initializeArc arc g = Inr (g\<lparr>residualGraph := Some (addProvidedToken ?R2 arc Forward parent)\<rparr>)"
      using Some by (simp add: initializeArc_def u e)
    moreover have "tokensAdded g {arc} R (addProvidedToken ?R2 arc Forward parent)"
      unfolding tokensAdded_def using Some t2 by (auto simp: addProvidedToken_def)
    ultimately show ?thesis by blast
  next
    case None
    show ?thesis
    proof (cases "parentToDuplicateMap g ?t")
      case None': None
      have "initializeArc arc g = Inr (g\<lparr>residualGraph := Some ?R2\<rparr>)"
        using None None' by (simp add: initializeArc_def u e)
      moreover have "tokensAdded g {arc} R ?R2"
        unfolding tokensAdded_def using None None' t2 by auto
      ultimately show ?thesis by blast
    next
      case (Some dup)
      have "initializeArc arc g = Inr (g\<lparr>residualGraph := Some (addForbiddenToken ?R2 arc Backward ?t)\<rparr>)"
        using None Some by (simp add: initializeArc_def u e)
      moreover have "tokensAdded g {arc} R (addForbiddenToken ?R2 arc Backward ?t)"
        unfolding tokensAdded_def using None Some t2 by (auto simp: addForbiddenToken_def)
      ultimately show ?thesis by blast
    qed
  qed
qed

lemma tokensAdded_empty: "tokensAdded g {} R R"
  by (simp add: tokensAdded_def)

lemma tokensAdded_trans:
  assumes "tokensAdded g A R R'" and "tokensAdded g B R' R''"
  shows "tokensAdded g (A \<union> B) R R''"
  using assms unfolding tokensAdded_def by (auto split: if_splits)

lemma tokensAdded_residual [simp]:
  "tokensAdded (g\<lparr>residualGraph := r\<rparr>) A R R' = tokensAdded g A R R'"
  by (simp add: tokensAdded_def)

lemma foldE_initializeArc:
  assumes "residualGraph g = Some R"
    and "\<forall>x \<in> set arcs. 0 \<le> flowMap g x \<and> flowMap g x \<le> capacityMap g x"
  shows "\<exists>R'. foldE initializeArc arcs g = Inr (g\<lparr>residualGraph := Some R'\<rparr>) \<and>
           tokensAdded g (set arcs) R R'"
  using assms
proof (induction arcs arbitrary: g R)
  case Nil
  have "g = g\<lparr>residualGraph := Some R\<rparr>" using Nil(1) by (cases g) simp
  then show ?case using tokensAdded_empty by auto
next
  case (Cons x xs)
  from initializeArc_tokens [OF Cons.prems(1), of x] Cons.prems(2)
  obtain R1 where 1: "initializeArc x g = Inr (g\<lparr>residualGraph := Some R1\<rparr>)"
    "tokensAdded g {x} R R1" by auto
  let ?g1 = "g\<lparr>residualGraph := Some R1\<rparr>"
  have "\<exists>R'. foldE initializeArc xs ?g1 = Inr (?g1\<lparr>residualGraph := Some R'\<rparr>) \<and>
           tokensAdded ?g1 (set xs) R1 R'"
    by (rule Cons.IH) (use Cons.prems(2) in simp_all)
  then obtain R' where 2: "foldE initializeArc xs ?g1 = Inr (g\<lparr>residualGraph := Some R'\<rparr>)"
    "tokensAdded g (set xs) R1 R'" by auto
  from tokensAdded_trans [OF 1(2) 2(2)] have "tokensAdded g (set (x # xs)) R R'" by simp
  with 1(1) 2(1) show ?case by auto
qed

lemma initializeResidualGraph_tokens:
  assumes "\<forall>x \<in> set (allArcs (baseGraph g)). 0 \<le> flowMap g x \<and> flowMap g x \<le> capacityMap g x"
  shows "\<exists>R'. initializeResidualGraph g useBackArcs useOrderedNodeListInBF
                = Inr (g\<lparr>residualGraph := Some R'\<rparr>) \<and>
              tokensAdded g (set (allArcs (baseGraph g))) newResidualGraph R'"
proof -
  let ?g0 = "g\<lparr>residualGraph := Some newResidualGraph\<rparr>"
  have "\<exists>R'. foldE initializeArc (allArcs (baseGraph g)) ?g0 = Inr (?g0\<lparr>residualGraph := Some R'\<rparr>) \<and>
           tokensAdded ?g0 (set (allArcs (baseGraph g))) newResidualGraph R'"
    by (rule foldE_initializeArc) (use assms in simp_all)
  then obtain R1 where 1: "foldE initializeArc (allArcs (baseGraph g)) ?g0 = Inr (g\<lparr>residualGraph := Some R1\<rparr>)"
    "tokensAdded g (set (allArcs (baseGraph g))) newResidualGraph R1" by auto
  let ?g1 = "g\<lparr>residualGraph := Some R1\<rparr>"
  have "\<exists>g'. foldE updateEnabledArc (allArcs (baseGraph ?g1)) ?g1 = Inr g' \<and> togglesOnly ?g1 g'"
    by (rule foldE_toggles [OF updateEnabledArc_toggles]) simp_all
  then obtain g' where 2: "foldE updateEnabledArc (allArcs (baseGraph ?g1)) ?g1 = Inr g'"
    "togglesOnly ?g1 g'" by blast
  from 2(2) obtain R' where 3: "g' = g\<lparr>residualGraph := Some R'\<rparr>" "flagsOnly R1 R'"
    by (auto simp: togglesOnly_def)
  have tok: "provided (R' x) = provided (R1 x) \<and> forbidden (R' x) = forbidden (R1 x)" for x
  proof -
    from 3(2) have "R' x = (R1 x)\<lparr>enabled := enabled (R' x)\<rparr>" unfolding flagsOnly_def by blast
    then show ?thesis by (metis ResidualArc.select_convs ResidualArc.surjective ResidualArc.update_convs(3))
  qed
  have "tokensAdded g (set (allArcs (baseGraph g))) newResidualGraph R'"
    using 1(2) tok unfolding tokensAdded_def by simp
  moreover have "initializeResidualGraph g useBackArcs useOrderedNodeListInBF = Inr (g\<lparr>residualGraph := Some R'\<rparr>)"
    unfolding initializeResidualGraph_def 1(1) using 2(1) 3(1) by simp
  ultimately show ?thesis by blast
qed

lemma divisionExample_eq:
  "divisionExample =
     \<lparr>baseGraph = \<lparr>numNodes = 7, arcList = [(2, 3), (4, 5), (3, 4), (0, 6), (6, 4)]\<rparr>,
      sourceNode = 0, targets = [1],
      nodeTimestepMap = (\<lambda>_. 0)(0 := 0, 1 := 5, 2 := 1, 3 := 2, 4 := 3, 5 := 4, 6 := 2),
      arcCosts = (\<lambda>_. [])(0 := [- 2], 1 := [- 3], 2 := [0], 3 := [- 4], 4 := [0]),
      flowMap = (\<lambda>_. 0),
      capacityMap = (\<lambda>_. 0)(0 := 1, 1 := 1, 2 := 1, 3 := 1, 4 := 1),
      intermediateArcs = {1, 0},
      parentToDuplicateMap = [3 \<mapsto> 6], duplicateToParentMap = [6 \<mapsto> 3],
      residualGraph = None\<rparr>"
  by (simp add: divisionExample_def addNode_def addArc_def addArcFull_def allowMitosis_def
        graphAddNode_def graphAddArc_def FlowGraph_new_def emptyGraph_def Let_def fun_eq_iff
        outArcs_def newestFirst_def source_def target_def isTarget_def)

lemma divisionExample_allArcs: "set (allArcs (baseGraph divisionExample)) = {0, 1, 2, 3, 4}"
  by (auto simp: set_allArcs divisionExample_eq validArc_def source_def less_Suc_eq numeral_eq_Suc)

text \<open>
  Claim C1, as the code has it.  On a graph whose arcs all start and end at nodes and whose
  flows lie between 0 and the capacity, \<open>initializeResidualGraph\<close> succeeds and changes
  the residual graph only.  Afterwards, for every parent \<open>v\<close> with duplicate \<open>d\<close> (where
  \<open>v\<close> is not itself a duplicate): the forward residual arc of every in-arc of \<open>d\<close>
  provides token \<open>id(v)\<close>, and the backward residual arc of every in-arc of \<open>v\<close>, that is,
  of every arc that ends at \<open>v\<close>, forbids token \<open>id(v)\<close>.
\<close>

theorem initialisation_tokens:
  assumes "danglingFree (baseGraph g)" and "flowsWithinCapacity g"
  shows "\<exists>R. initializeResidualGraph g useBackArcs useOrderedNodeListInBF
               = Inr (g\<lparr>residualGraph := Some R\<rparr>) \<and>
     (\<forall>v d. parentToDuplicateMap g v = Some d \<and> duplicateToParentMap g d = Some v \<and>
            duplicateToParentMap g v = None \<longrightarrow>
        (\<forall>x \<in> set (inArcs (baseGraph g) d). v \<in> provided (R (x, Forward))) \<and>
        (\<forall>x \<in> set (inArcs (baseGraph g) v). v \<in> forbidden (R (x, Backward))))"
proof -
  have all: "set (allArcs (baseGraph g)) = {x. validArc (baseGraph g) x}"
    by (rule set_allArcs_danglingFree [OF assms(1)])
  have "\<forall>x \<in> set (allArcs (baseGraph g)). 0 \<le> flowMap g x \<and> flowMap g x \<le> capacityMap g x"
    using assms(2) all by (simp add: flowsWithinCapacity_def)
  from initializeResidualGraph_tokens [OF this, of useBackArcs useOrderedNodeListInBF]
  obtain R where run: "initializeResidualGraph g useBackArcs useOrderedNodeListInBF
                = Inr (g\<lparr>residualGraph := Some R\<rparr>)"
    and tok: "tokensAdded g (set (allArcs (baseGraph g))) newResidualGraph R" by blast
  have "v \<in> provided (R (x, Forward))"
    if "duplicateToParentMap g d = Some v" "x \<in> set (inArcs (baseGraph g) d)" for v d x
    using that tok all unfolding tokensAdded_def by (simp add: set_inArcs)
  moreover have "v \<in> forbidden (R (x, Backward))"
    if "parentToDuplicateMap g v = Some d" "duplicateToParentMap g v = None"
      "x \<in> set (inArcs (baseGraph g) v)" for v d x
    using that tok all unfolding tokensAdded_def by (simp add: set_inArcs)
  ultimately show ?thesis using run by blast
qed

lemma divisionExample_danglingFree: "danglingFree (baseGraph divisionExample)"
  by (simp add: danglingFree_def divisionExample_eq)

lemma divisionExample_flows:
  "0 \<le> flowMap divisionExample x \<and> flowMap divisionExample x \<le> capacityMap divisionExample x"
  by (simp add: divisionExample_eq)

text \<open>
  The hypotheses of C1 hold in the division example: the division arc 3 provides token 3,
  the id of the exit node of A, and the detection arc 0 of A forbids it.
\<close>

theorem initialisation_tokens_witness:
  "danglingFree (baseGraph divisionExample) \<and>
   flowsWithinCapacity divisionExample \<and>
   parentToDuplicateMap divisionExample 3 = Some 6 \<and>
   duplicateToParentMap divisionExample 6 = Some 3 \<and>
   duplicateToParentMap divisionExample 3 = None \<and>
   3 \<in> set (inArcs (baseGraph divisionExample) 6) \<and>
   0 \<in> set (inArcs (baseGraph divisionExample) 3) \<and>
   (\<exists>R. initializeResidualGraph divisionExample True True
            = Inr (divisionExample\<lparr>residualGraph := Some R\<rparr>) \<and>
        3 \<in> provided (R (3, Forward)) \<and> 3 \<in> forbidden (R (0, Backward)))"
proof -
  have h: "danglingFree (baseGraph divisionExample)" "flowsWithinCapacity divisionExample"
    using divisionExample_danglingFree divisionExample_flows
    by (simp_all add: flowsWithinCapacity_def)
  have m: "parentToDuplicateMap divisionExample 3 = Some 6 \<and>
      duplicateToParentMap divisionExample 6 = Some 3 \<and>
      duplicateToParentMap divisionExample 3 = None"
    by (simp add: divisionExample_eq)
  have i: "3 \<in> set (inArcs (baseGraph divisionExample) 6)"
    "0 \<in> set (inArcs (baseGraph divisionExample) 3)"
    by (simp_all add: set_inArcs divisionExample_eq validArc_def target_def)
  from initialisation_tokens [OF h, of True True] m i h show ?thesis by blast
qed

text \<open>
  Claim C1 as stated fails for the out-arcs: in the division example, arc 2 leaves the
  parent node 3, and its backward residual arc does not forbid token 3.
\<close>

theorem initialisation_tokens_counterexample:
  "parentToDuplicateMap divisionExample 3 = Some 6 \<and>
   2 \<in> set (outArcs (baseGraph divisionExample) 3) \<and>
   \<not> isl (initializeResidualGraph divisionExample True True) \<and>
   3 \<notin> forbidden (the (residualGraph (projr (initializeResidualGraph divisionExample True True)))
           (2, Backward))"
proof -
  have "\<forall>x \<in> set (allArcs (baseGraph divisionExample)).
      0 \<le> flowMap divisionExample x \<and> flowMap divisionExample x \<le> capacityMap divisionExample x"
    using divisionExample_flows by simp
  from initializeResidualGraph_tokens [OF this, of True True]
  obtain R where run: "initializeResidualGraph divisionExample True True
                = Inr (divisionExample\<lparr>residualGraph := Some R\<rparr>)"
    and tok: "tokensAdded divisionExample (set (allArcs (baseGraph divisionExample))) newResidualGraph R"
    by blast
  have "forbidden (R (2, Backward)) = {}"
    using tok unfolding tokensAdded_def
    by (simp add: newResidualGraph_def divisionExample_eq target_def)
  moreover have "parentToDuplicateMap divisionExample 3 = Some 6"
    "2 \<in> set (outArcs (baseGraph divisionExample) 3)"
    by (simp_all add: set_outArcs divisionExample_eq validArc_def source_def)
  ultimately show ?thesis by (simp add: run)
qed

subsection \<open>augmentUnitFlow and the flow map\<close>


lemma flowMap_residualGraph_swap:
  "g\<lparr>residualGraph := r, flowMap := fm\<rparr> = g\<lparr>flowMap := fm, residualGraph := r\<rparr>"
  by (cases g) simp

lemma coupledArcOf_update [simp]:
  "coupledArcOf (g\<lparr>flowMap := fm\<rparr>) = coupledArcOf g"
  "coupledArcOf (g\<lparr>residualGraph := r\<rparr>) = coupledArcOf g"
  by (simp_all add: coupledArcOf_def fun_eq_iff cong: option.case_cong)

lemma augmentedFlow_update [simp]:
  "augmentedFlow (g\<lparr>flowMap := x\<rparr>) = augmentedFlow g"
  "augmentedFlow (g\<lparr>residualGraph := r\<rparr>) = augmentedFlow g"
  by (simp_all add: augmentedFlow_def fun_eq_iff cong: option.case_cong)

lemma augmentFeasible_update [simp]:
  "augmentFeasible (g\<lparr>flowMap := x\<rparr>) = augmentFeasible g"
  "augmentFeasible (g\<lparr>residualGraph := r\<rparr>) = augmentFeasible g"
  by (simp_all add: augmentFeasible_def fun_eq_iff cong: option.case_cong)

lemma flowsAlong_update [simp]:
  "flowsAlong (g\<lparr>flowMap := x\<rparr>) fm p = flowsAlong g fm p"
  "flowsAlong (g\<lparr>residualGraph := r\<rparr>) fm p = flowsAlong g fm p"
  by (induction p arbitrary: fm) simp_all

lemma pathFeasible_update [simp]:
  "pathFeasible (g\<lparr>flowMap := x\<rparr>) fm p = pathFeasible g fm p"
  "pathFeasible (g\<lparr>residualGraph := r\<rparr>) fm p = pathFeasible g fm p"
  by (induction p arbitrary: fm) simp_all

lemma updateArc_Inr_iff:
  "updateArc arc g = Inr g' \<longleftrightarrow>
     0 \<le> flowMap g arc \<and> flowMap g arc \<le> capacityMap g arc \<and>
     (\<exists>R. residualGraph g = Some R \<and>
        g' = g\<lparr>residualGraph := Some (residualUpdateArc
          (residualUpdateArc R arc Forward (getArcCost g arc (flowMap g arc))
             (capacityMap g arc - flowMap g arc))
          arc Backward (negateCost (getArcCost g arc (flowMap g arc - 1))) (flowMap g arc))\<rparr>)"
  by (auto simp: updateArc_def Let_def split: option.splits)

lemma updateArc_cases:
  "(\<exists>e. updateArc arc g = Inl e \<and>
        \<not> (0 \<le> flowMap g arc \<and> flowMap g arc \<le> capacityMap g arc \<and> residualGraph g \<noteq> None))
   \<or> (\<exists>R'. updateArc arc g = Inr (g\<lparr>residualGraph := Some R'\<rparr>) \<and>
        0 \<le> flowMap g arc \<and> flowMap g arc \<le> capacityMap g arc \<and> residualGraph g \<noteq> None)"
  by (cases "residualGraph g") (auto simp: updateArc_def Let_def)

text \<open>What \<open>augmentArc\<close> does, in terms of the flow map alone.\<close>

lemma augmentArc_cases:
  "(\<exists>e. augmentArc af g = Inl e \<and> \<not> (augmentFeasible g (flowMap g) af \<and> residualGraph g \<noteq> None))
   \<or> (\<exists>R'. augmentArc af g =
           Inr (g\<lparr>flowMap := augmentedFlow g (flowMap g) af, residualGraph := Some R'\<rparr>) \<and>
         augmentFeasible g (flowMap g) af \<and> residualGraph g \<noteq> None)"
proof (cases "validArc (baseGraph g) (fst af)")
  case False
  then show ?thesis by (simp add: augmentArc_def augmentFeasible_def)
next
  case v: True
  let ?G = "baseGraph g" and ?a = "fst af"
  let ?fm1 = "(flowMap g)(?a := flowMap g ?a + snd af)"
  let ?g1 = "g\<lparr>flowMap := ?fm1\<rparr>"
  from updateArc_cases [of ?a ?g1] show ?thesis
  proof (elim disjE exE conjE)
    fix e assume "updateArc ?a ?g1 = Inl e"
      "\<not> (0 \<le> flowMap ?g1 ?a \<and> flowMap ?g1 ?a \<le> capacityMap ?g1 ?a \<and> residualGraph ?g1 \<noteq> None)"
    then show ?thesis using v by (auto simp: augmentArc_def Let_def augmentFeasible_def)
  next
    fix R2 assume u1: "updateArc ?a ?g1 = Inr (?g1\<lparr>residualGraph := Some R2\<rparr>)"
      and r1: "0 \<le> flowMap ?g1 ?a" "flowMap ?g1 ?a \<le> capacityMap ?g1 ?a"
      and rg: "residualGraph ?g1 \<noteq> None"
    have rg': "residualGraph g \<noteq> None" using rg by simp
    have r1': "0 \<le> flowMap g ?a + snd af" "flowMap g ?a + snd af \<le> capacityMap g ?a"
      using r1 by simp_all
    show ?thesis
    proof (cases "coupledArcOf g ?a")
      case None
      then have fm: "augmentedFlow g (flowMap g) af = ?fm1" by (simp add: augmentedFlow_def)
      have "augmentArc af g = Inr (?g1\<lparr>residualGraph := Some R2\<rparr>)"
        using None v u1
        by (auto simp: augmentArc_def Let_def coupledArcOf_def split: option.splits)
      then show ?thesis using None v r1' rg' by (auto simp: fm augmentFeasible_def)
    next
      case (Some oa)
      let ?fm2 = "augmentedFlow g (flowMap g) af"
      let ?g3 = "g\<lparr>flowMap := ?fm2, residualGraph := Some R2\<rparr>"
      have step: "augmentArc af g = updateArc oa ?g3"
      proof (cases "duplicateToParentMap g (source ?G ?a)")
        case d: (Some parent)
        with Some have "firstOutArcTo ?G parent (target ?G ?a) = Some oa"
          by (simp add: coupledArcOf_def)
        with d Some v u1 show ?thesis
          by (simp add: augmentArc_def Let_def augmentedFlow_def flowMap_residualGraph_swap)
      next
        case d: None
        with Some obtain dup where p: "parentToDuplicateMap g (source ?G ?a) = Some dup"
          and f: "firstOutArcTo ?G dup (target ?G ?a) = Some oa"
          by (auto simp: coupledArcOf_def split: option.splits)
        with d p f Some v u1 show ?thesis
          by (simp add: augmentArc_def Let_def augmentedFlow_def flowMap_residualGraph_swap)
      qed
      from updateArc_cases [of oa ?g3] show ?thesis
      proof (elim disjE exE conjE)
        fix e assume "updateArc oa ?g3 = Inl e"
          "\<not> (0 \<le> flowMap ?g3 oa \<and> flowMap ?g3 oa \<le> capacityMap ?g3 oa \<and> residualGraph ?g3 \<noteq> None)"
        then show ?thesis using step Some by (auto simp: augmentFeasible_def)
      next
        fix R3 assume "updateArc oa ?g3 = Inr (?g3\<lparr>residualGraph := Some R3\<rparr>)"
          "0 \<le> flowMap ?g3 oa" "flowMap ?g3 oa \<le> capacityMap ?g3 oa"
        then show ?thesis using step Some v r1' rg' by (auto simp: augmentFeasible_def)
      qed
    qed
  qed
qed

lemma augmentUnitFlow_cases:
  assumes "residualGraph g \<noteq> None"
  shows "(\<exists>e. augmentUnitFlow p g = Inl e \<and> \<not> pathFeasible g (flowMap g) p)
   \<or> (\<exists>R'. augmentUnitFlow p g =
           Inr (g\<lparr>flowMap := flowsAlong g (flowMap g) p, residualGraph := Some R'\<rparr>) \<and>
         pathFeasible g (flowMap g) p)"
  using assms
proof (induction p arbitrary: g)
  case Nil
  then obtain R where "residualGraph g = Some R" by blast
  then have "g = g\<lparr>flowMap := flowMap g, residualGraph := Some R\<rparr>" by (cases g) simp
  then show ?case by (auto simp: augmentUnitFlow_def)
next
  case (Cons af p)
  from augmentArc_cases [of af g] show ?case
  proof (elim disjE exE conjE)
    fix e assume "augmentArc af g = Inl e"
      "\<not> (augmentFeasible g (flowMap g) af \<and> residualGraph g \<noteq> None)"
    then show ?thesis using Cons.prems by (auto simp: augmentUnitFlow_def)
  next
    fix R1
    let ?g1 = "g\<lparr>flowMap := augmentedFlow g (flowMap g) af, residualGraph := Some R1\<rparr>"
    assume a: "augmentArc af g = Inr ?g1" and f: "augmentFeasible g (flowMap g) af"
    have eq: "augmentUnitFlow (af # p) g = augmentUnitFlow p ?g1"
      by (simp add: augmentUnitFlow_def a)
    have "residualGraph ?g1 \<noteq> None" by simp
    from Cons.IH [OF this] show ?thesis
      unfolding eq using f by auto
  qed
qed

subsection \<open>Iterations of the tracking loop, and the run on a single cell\<close>


lemma singleCell_eq:
  "singleCell =
     \<lparr>baseGraph = \<lparr>numNodes = 4, arcList = [(2, 3), (0, 2), (3, 1)]\<rparr>,
      sourceNode = 0, targets = [1],
      nodeTimestepMap = (\<lambda>_. 0)(0 := 0, 1 := 3, 2 := 1, 3 := 2),
      arcCosts = (\<lambda>_. [])(0 := [- 5], 1 := [1], 2 := [1]),
      flowMap = (\<lambda>_. 0),
      capacityMap = (\<lambda>_. 0)(0 := 1, 1 := 1, 2 := 1),
      intermediateArcs = {0},
      parentToDuplicateMap = Map.empty, duplicateToParentMap = Map.empty,
      residualGraph = None\<rparr>"
  by (simp add: singleCell_def addNode_def addArc_def
        graphAddNode_def graphAddArc_def FlowGraph_new_def emptyGraph_def Let_def fun_eq_iff)

lemma augmenting_iteration:
  assumes rg: "residualGraph (graph s) \<noteq> None"
    and found: "F (graph s) B = ((p, c), R)"
    and c: "c \<le> - (1 / 10 ^ 8)" and p: "p \<noteq> []"
    and feasible: "pathFeasible (graph s) (flowMap (graph s)) p"
  shows "\<exists>R'. trackingIteration F M B s =
      (let s2 = s\<lparr>graph := (graph s)\<lparr>flowMap := flowsAlong (graph s) (flowMap (graph s)) p,
                                     residualGraph := Some R'\<rparr>,
                    result := (p, c),
                    iter := iter s + 1,
                    currentEnergy := currentEnergy s + c,
                    debugLog := debugLog s @
                      [IterationBegins, FoundPath (length p) c, Augmented,
                       IterationDone (iter s) (currentEnergy s + c)]\<rparr>
       in if M < 1 \<or> iter s + 1 < M then Repeat s2 else Leave (Inr s2))"
proof -
  let ?g1 = "(graph s)\<lparr>residualGraph := Some R\<rparr>"
  have "residualGraph ?g1 \<noteq> None" by simp
  from augmentUnitFlow_cases [OF this, of p] feasible
  obtain R1 where a: "augmentUnitFlow p ?g1 =
      Inr (?g1\<lparr>flowMap := flowsAlong (graph s) (flowMap (graph s)) p, residualGraph := Some R1\<rparr>)"
    by auto
  let ?g2 = "(graph s)\<lparr>flowMap := flowsAlong (graph s) (flowMap (graph s)) p, residualGraph := Some R1\<rparr>"
  have a': "augmentUnitFlow p ?g1 = Inr ?g2" using a by (simp add: flowMap_residualGraph_swap)
  have "residualGraph ?g2 \<noteq> None" by simp
  from updateEnabledArcs_toggles [OF this, of p] obtain g3 where
    u: "updateEnabledArcs p ?g2 = Inr g3" and t: "togglesOnly ?g2 g3" by blast
  from t obtain R' where g3: "g3 = ?g2\<lparr>residualGraph := Some R'\<rparr>"
    by (auto simp: togglesOnly_def)
  have c0: "c < 0" and c1: "\<not> c > - (1 / 10 ^ 8)" using c by simp_all
  from rg obtain R0 where R0: "residualGraph (graph s) = Some R0" by blast
  have "trackingIteration F M B s =
      (let s2 = s\<lparr>graph := g3, result := (p, c), iter := iter s + 1,
                    currentEnergy := currentEnergy s + c,
                    debugLog := debugLog s @
                      [IterationBegins, FoundPath (length p) c, Augmented,
                       IterationDone (iter s) (currentEnergy s + c)]\<rparr>
       in if M < 1 \<or> iter s + 1 < M then Repeat s2 else Leave (Inr s2))"
    using p c0 c1 by (simp add: trackingIteration_def R0 found Let_def a' u)
  then show ?thesis unfolding g3 by auto
qed

lemma stopping_iteration:
  assumes rg: "residualGraph (graph s) \<noteq> None"
    and found: "F (graph s) B = ((p, c), R)"
    and c: "c > - (1 / 10 ^ 8)"
  shows "trackingIteration F M B s =
      Leave (Inr (s\<lparr>graph := (graph s)\<lparr>residualGraph := Some R\<rparr>,
                    result := (p, c),
                    debugLog := debugLog s @ [IterationBegins, FoundPath (length p) c]\<rparr>))"
proof -
  from rg obtain R0 where R0: "residualGraph (graph s) = Some R0" by blast
  show ?thesis using c by (simp add: trackingIteration_def R0 found Let_def)
qed

lemma singleCell_path:
  "pathFeasible singleCell (\<lambda>_. 0) [(1, 1), (0, 1), (2, 1)]"
  "flowsAlong singleCell (\<lambda>_. 0) [(1, 1), (0, 1), (2, 1)] = (\<lambda>_. 0)(1 := 1, 0 := 1, 2 := 1)"
  by (simp_all add: singleCell_eq augmentFeasible_def augmentedFlow_def coupledArcOf_def
        validArc_def)

lemma singleCell_run:
  "\<exists>run. maxFlowMinCostTracking singleCellFinder singleCell e0 useBackArcs M
             useOrderedNodeListInBF B = Some (Inr run) \<and>
     currentEnergy run = e0 - 3 \<and> iter run = 1 \<and>
     debugLog run = [IterationBegins, FoundPath 3 (- 3), Augmented, IterationDone 0 (e0 - 3)]
        @ (if M < 1 \<or> 1 < M then [IterationBegins, FoundPath 0 0] else []) \<and>
     result run = (if M < 1 \<or> 1 < M then ([], 0) else ([(1, 1), (0, 1), (2, 1)], - 3)) \<and>
     flowMap (graph run) = (\<lambda>_. 0)(1 := 1, 0 := 1, 2 := 1)"
proof -
  have "\<forall>x \<in> set (allArcs (baseGraph singleCell)).
      0 \<le> flowMap singleCell x \<and> flowMap singleCell x \<le> capacityMap singleCell x"
    by (simp add: singleCell_eq)
  from initializeResidualGraph_tokens [OF this, of useBackArcs useOrderedNodeListInBF]
  obtain R0 where init: "initializeResidualGraph singleCell useBackArcs useOrderedNodeListInBF
                = Inr (singleCell\<lparr>residualGraph := Some R0\<rparr>)" by blast
  let ?g0 = "singleCell\<lparr>residualGraph := Some R0\<rparr>"
  let ?s0 = "\<lparr>graph = ?g0, result = ([], 0), iter = 0, currentEnergy = e0, debugLog = []\<rparr>"
  let ?p = "[(1, 1), (0, 1), (2, 1)] :: Path"
  have start: "maxFlowMinCostTracking singleCellFinder singleCell e0 useBackArcs M
             useOrderedNodeListInBF B = trackingLoop singleCellFinder M B ?s0"
  proof -
    have "residualGraph singleCell = None" by (simp add: singleCell_eq)
    then show ?thesis by (simp add: maxFlowMinCostTracking_def init)
  qed
  have fm0: "flowMap ?g0 = (\<lambda>_. 0)" by (simp add: singleCell_eq)
  have found: "singleCellFinder (graph ?s0) B = ((?p, - 3), R0)"
    by (simp add: singleCellFinder_def fm0)
  have "pathFeasible (graph ?s0) (flowMap (graph ?s0)) ?p"
    using singleCell_path(1) by (simp add: fm0)
  from augmenting_iteration [of ?s0 singleCellFinder B ?p "- 3" R0 M, OF _ found _ _ this]
  obtain R1 where it1: "trackingIteration singleCellFinder M B ?s0 =
      (let s2 = ?s0\<lparr>graph := ?g0\<lparr>flowMap := flowsAlong ?g0 (flowMap ?g0) ?p,
                                     residualGraph := Some R1\<rparr>,
                    result := (?p, - 3),
                    iter := iter ?s0 + 1,
                    currentEnergy := currentEnergy ?s0 + (- 3),
                    debugLog := debugLog ?s0 @
                      [IterationBegins, FoundPath (length ?p) (- 3), Augmented,
                       IterationDone (iter ?s0) (currentEnergy ?s0 + (- 3))]\<rparr>
       in if M < 1 \<or> iter ?s0 + 1 < M then Repeat s2 else Leave (Inr s2))"
    by auto
  let ?fm1 = "(\<lambda>_. 0)(1 := 1, 0 := 1, 2 := (1::int))"
  let ?g1 = "singleCell\<lparr>flowMap := ?fm1, residualGraph := Some R1\<rparr>"
  let ?s1 = "\<lparr>graph = ?g1, result = (?p, - 3), iter = 1, currentEnergy = e0 - 3,
      debugLog = [IterationBegins, FoundPath 3 (- 3), Augmented, IterationDone 0 (e0 - 3)]\<rparr>"
  have it1': "trackingIteration singleCellFinder M B ?s0 =
      (if M < 1 \<or> 1 < M then Repeat ?s1 else Leave (Inr ?s1))"
    unfolding it1 using singleCell_path(2) by (simp add: fm0 Let_def)
  show ?thesis
  proof (cases "M < 1 \<or> 1 < M")
    case False
    then have "trackingLoop singleCellFinder M B ?s0 = Some (Inr ?s1)"
      by (subst trackingLoop.simps) (simp only: it1' if_False LoopStep.case)
    then show ?thesis using False unfolding start by simp
  next
    case True
    have found2: "singleCellFinder (graph ?s1) B = (([], 0), R1)"
      by (simp add: singleCellFinder_def)
    from stopping_iteration [of ?s1 singleCellFinder B "[]" 0 R1 M, OF _ found2]
    have it2: "trackingIteration singleCellFinder M B ?s1 =
      Leave (Inr (?s1\<lparr>graph := (graph ?s1)\<lparr>residualGraph := Some R1\<rparr>,
                    result := ([], 0),
                    debugLog := debugLog ?s1 @ [IterationBegins, FoundPath (length ([] :: Path)) 0]\<rparr>))"
      by simp
    have "trackingLoop singleCellFinder M B ?s0 = trackingLoop singleCellFinder M B ?s1"
      using True by (subst trackingLoop.simps) (simp only: it1' if_True LoopStep.case)
    also have "\<dots> = Some (Inr (?s1\<lparr>graph := (graph ?s1)\<lparr>residualGraph := Some R1\<rparr>,
                    result := ([], 0),
                    debugLog := debugLog ?s1 @ [IterationBegins, FoundPath (length ([] :: Path)) 0]\<rparr>))"
      by (subst trackingLoop.simps) (simp only: it2 LoopStep.case)
    finally show ?thesis using True unfolding start by simp
  qed
qed

subsection \<open>The tracking loop: an invariant rule\<close>



lemma trackingLoop_rule:
  assumes run: "trackingLoop F M B s = Some (Inr x)"
    and init: "I s"
    and step: "\<And>s s'. I s \<Longrightarrow> trackingIteration F M B s = Repeat s' \<Longrightarrow> I s'"
    and fin: "\<And>s s'. I s \<Longrightarrow> trackingIteration F M B s = Leave (Inr s') \<Longrightarrow> Q s'"
  shows "Q x"
proof -
  define r0 :: "error + TrackingRun" where "r0 = Inr x"
  have run0: "trackingLoop F M B s = Some r0" using run by (simp add: r0_def)
  have "F = F \<and> M = M \<and> B = B \<longrightarrow> I s \<longrightarrow> (\<forall>y. r0 = Inr y \<longrightarrow> Q y)"
  proof (rule trackingLoop.raw_induct
      [where P = "\<lambda>F' M' B' s r. F' = F \<and> M' = M \<and> B' = B \<longrightarrow> I s \<longrightarrow> (\<forall>y. r = Inr y \<longrightarrow> Q y)",
       OF _ run0])
    fix loop F' M' B' s r
    assume IH: "\<And>F' M' B' s r. loop F' M' B' s = Some r \<Longrightarrow>
                  F' = F \<and> M' = M \<and> B' = B \<longrightarrow> I s \<longrightarrow> (\<forall>y. r = Inr y \<longrightarrow> Q y)"
      and eq: "(case trackingIteration F' M' B' s of Leave r \<Rightarrow> Some r
                | Repeat s' \<Rightarrow> loop F' M' B' s') = Some r"
    show "F' = F \<and> M' = M \<and> B' = B \<longrightarrow> I s \<longrightarrow> (\<forall>y. r = Inr y \<longrightarrow> Q y)"
    proof (intro impI allI)
      fix y
      assume p: "F' = F \<and> M' = M \<and> B' = B" and i: "I s" and y: "r = Inr y"
      show "Q y"
      proof (cases "trackingIteration F M B s")
        case (Leave r')
        with eq p y have "trackingIteration F M B s = Leave (Inr y)" by simp
        from fin [OF i this] show ?thesis .
      next
        case (Repeat s')
        with eq p have "loop F M B s' = Some r" by simp
        from IH [OF this] step [OF i Repeat] y show ?thesis by simp
      qed
    qed
  qed
  with init show ?thesis by (simp add: r0_def)
qed

lemma trackingIteration_Repeat:
  assumes "trackingIteration F M B s = Repeat s'"
  shows "iter s' = iter s + 1" and "M < 1 \<or> iter s + 1 < M"
    and "result s' = fst (F (graph s) B)"
    and "snd (result s') \<le> - (1 / 10 ^ 8)" and "fst (result s') \<noteq> []"
    and "currentEnergy s' = currentEnergy s + snd (result s')"
    and "debugLog s' = debugLog s @
           [IterationBegins, FoundPath (length (fst (result s'))) (snd (result s')),
            Augmented, IterationDone (iter s) (currentEnergy s')]"
  using assms
  by (auto simp: trackingIteration_def Let_def split: option.splits if_splits sum.splits)

lemma trackingIteration_Leave:
  assumes "trackingIteration F M B s = Leave (Inr s')"
  shows "result s' = fst (F (graph s) B)"
    and "(snd (result s') > - (1 / 10 ^ 8) \<and> iter s' = iter s \<and>
          currentEnergy s' = currentEnergy s \<and>
          debugLog s' = debugLog s @
            [IterationBegins, FoundPath (length (fst (result s'))) (snd (result s'))])
       \<or> (snd (result s') \<le> - (1 / 10 ^ 8) \<and> fst (result s') \<noteq> [] \<and>
          \<not> (M < 1 \<or> iter s + 1 < M) \<and> iter s' = iter s + 1 \<and>
          currentEnergy s' = currentEnergy s + snd (result s') \<and>
          debugLog s' = debugLog s @
            [IterationBegins, FoundPath (length (fst (result s'))) (snd (result s')),
             Augmented, IterationDone (iter s) (currentEnergy s')])
       \<or> (snd (result s') \<le> - (1 / 10 ^ 8) \<and> fst (result s') = [] \<and>
          iter s' = iter s + 1 \<and> currentEnergy s' = currentEnergy s \<and>
          debugLog s' = debugLog s @
            [IterationBegins, FoundPath (length (fst (result s'))) (snd (result s')),
             IterationDone (iter s) (currentEnergy s')])"
  using assms
  by (auto simp: trackingIteration_def Let_def split: option.splits if_splits sum.splits)

lemma loggedEnergies_append:
  "loggedEnergies (xs @ ys) = loggedEnergies xs @ loggedEnergies ys"
  by (simp add: loggedEnergies_def)

lemma loggedEnergies_simps:
  "loggedEnergies [] = []"
  "loggedEnergies (IterationBegins # l) = loggedEnergies l"
  "loggedEnergies (FoundPath n c # l) = loggedEnergies l"
  "loggedEnergies (Augmented # l) = loggedEnergies l"
  "loggedEnergies (IterationDone i e # l) = e # loggedEnergies l"
  by (simp_all add: loggedEnergies_def)

lemma descending_snoc:
  assumes "sorted_wrt (\<ge>) (xs :: real list)" and "xs \<noteq> []" and "y \<le> last xs"
  shows "sorted_wrt (\<ge>) (xs @ [y])"
proof -
  have "x \<ge> last xs" if "x \<in> set xs" for x
    using assms(1,2) that
  proof (induction xs)
    case Nil then show ?case by simp
  next
    case (Cons z zs)
    then show ?case by (cases zs) auto
  qed
  with assms show ?thesis by (fastforce simp: sorted_wrt_append)
qed

subsection \<open>The energy never increases\<close>

lemma energyDescends_Repeat:
  assumes "energyDescends e0 s" and "trackingIteration F M B s = Repeat s'"
  shows "energyDescends e0 s'"
proof -
  note r = trackingIteration_Repeat [OF assms(2)]
  have le: "currentEnergy s' \<le> last (e0 # loggedEnergies (debugLog s))"
    using assms(1) r(4,6) by (simp add: energyDescends_def)
  have "sorted_wrt (\<ge>) ((e0 # loggedEnergies (debugLog s)) @ [currentEnergy s'])"
    using assms(1) le by (intro descending_snoc) (simp_all add: energyDescends_def)
  then show ?thesis
    unfolding energyDescends_def r(7) by (simp add: loggedEnergies_append loggedEnergies_simps)
qed

lemma energyDescends_Leave:
  assumes "energyDescends e0 s" and "trackingIteration F M B s = Leave (Inr s')"
  shows "energyDescends e0 s'"
proof -
  note r = trackingIteration_Leave [OF assms(2)]
  from r(2) show ?thesis
  proof (elim disjE conjE)
    assume "currentEnergy s' = currentEnergy s"
      "debugLog s' = debugLog s @
            [IterationBegins, FoundPath (length (fst (result s'))) (snd (result s'))]"
    then show ?thesis using assms(1)
      by (simp add: energyDescends_def loggedEnergies_append loggedEnergies_simps)
  next
    assume c: "snd (result s') \<le> - (1 / 10 ^ 8)"
      and e: "currentEnergy s' = currentEnergy s + snd (result s')"
      and l: "debugLog s' = debugLog s @
            [IterationBegins, FoundPath (length (fst (result s'))) (snd (result s')),
             Augmented, IterationDone (iter s) (currentEnergy s')]"
    have le: "currentEnergy s' \<le> last (e0 # loggedEnergies (debugLog s))"
      using assms(1) c e by (simp add: energyDescends_def)
    have "sorted_wrt (\<ge>) ((e0 # loggedEnergies (debugLog s)) @ [currentEnergy s'])"
      using assms(1) le by (intro descending_snoc) (simp_all add: energyDescends_def)
    then show ?thesis
      unfolding energyDescends_def l by (simp add: loggedEnergies_append loggedEnergies_simps)
  next
    assume e: "currentEnergy s' = currentEnergy s"
      and l: "debugLog s' = debugLog s @
            [IterationBegins, FoundPath (length (fst (result s'))) (snd (result s')),
             IterationDone (iter s) (currentEnergy s')]"
    have le: "currentEnergy s' \<le> last (e0 # loggedEnergies (debugLog s))"
      using assms(1) e by (simp add: energyDescends_def)
    have "sorted_wrt (\<ge>) ((e0 # loggedEnergies (debugLog s)) @ [currentEnergy s'])"
      using assms(1) le by (intro descending_snoc) (simp_all add: energyDescends_def)
    then show ?thesis
      unfolding energyDescends_def l by (simp add: loggedEnergies_append loggedEnergies_simps)
  qed
qed

lemma energyDescends_le:
  assumes "energyDescends e0 s" shows "currentEnergy s \<le> e0"
proof -
  have "last (e0 # xs) \<le> e0" if "sorted_wrt (\<ge>) (e0 # xs)" for xs :: "real list"
    using that by (cases xs rule: rev_cases) auto
  with assms show ?thesis by (simp add: energyDescends_def)
qed

text \<open>
  Claim C7.  The energy that \<open>maxFlowMinCostTracking\<close> maintains never increases: the
  energies reported at the end of the iterations, preceded by \<open>initialStateEnergy\<close>,
  form a non-increasing sequence, and the energy returned is the last of them, hence at
  most \<open>initialStateEnergy\<close>.
\<close>

theorem tracking_energy_monotone:
  assumes "maxFlowMinCostTracking findShortestPath g initialStateEnergy useBackArcs maxNumPaths
             useOrderedNodeListInBF partialBFUpdates = Some (Inr run)"
  shows "currentEnergy run \<le> initialStateEnergy \<and>
         sorted_wrt (\<ge>) (initialStateEnergy # loggedEnergies (debugLog run)) \<and>
         currentEnergy run = last (initialStateEnergy # loggedEnergies (debugLog run))"
proof -
  from assms obtain g0 where
    loop: "trackingLoop findShortestPath maxNumPaths partialBFUpdates
            \<lparr>graph = g0, result = ([], 0), iter = 0, currentEnergy = initialStateEnergy,
             debugLog = []\<rparr> = Some (Inr run)"
    by (auto simp: maxFlowMinCostTracking_def split: sum.splits)
  have init: "energyDescends initialStateEnergy
      \<lparr>graph = g0, result = ([], 0), iter = 0, currentEnergy = initialStateEnergy, debugLog = []\<rparr>"
    by (simp add: energyDescends_def loggedEnergies_simps)
  have "energyDescends initialStateEnergy run"
  proof (rule trackingLoop_rule [OF loop])
    show "energyDescends initialStateEnergy
      \<lparr>graph = g0, result = ([], 0), iter = 0, currentEnergy = initialStateEnergy, debugLog = []\<rparr>"
      by (rule init)
  next
    fix s s' assume "energyDescends initialStateEnergy s"
      "trackingIteration findShortestPath maxNumPaths partialBFUpdates s = Repeat s'"
    then show "energyDescends initialStateEnergy s'" by (rule energyDescends_Repeat)
  next
    fix s s' assume "energyDescends initialStateEnergy s"
      "trackingIteration findShortestPath maxNumPaths partialBFUpdates s = Leave (Inr s')"
    then show "energyDescends initialStateEnergy s'" by (rule energyDescends_Leave)
  qed
  then have d: "energyDescends initialStateEnergy run" .
  from energyDescends_le [OF d] d show ?thesis by (simp add: energyDescends_def)
qed

subsection \<open>The cap on the iterations\<close>

lemma unat_iter_Suc:
  assumes "(i :: size_t) < M" shows "unat (i + 1) = Suc (unat i)" and "i + 1 \<le> M"
proof -
  have "unat i < unat M" using assms by (simp add: word_less_nat_alt)
  moreover have "unat M < 2 ^ 64" using unsigned_less [of M, where ?'a = nat] by simp
  ultimately have "unat i + 1 < 2 ^ 64" by simp
  then show u: "unat (i + 1) = Suc (unat i)" by (simp add: unat_word_ariths)
  show "i + 1 \<le> M" using \<open>unat i < unat M\<close> u by (simp add: word_le_nat_alt)
qed

lemma trackingLoop_bounded:
  assumes "iter s < M"
    and "count_list (debugLog s) Augmented \<le> unat (iter s)"
    and "count_list (debugLog s) IterationBegins \<le> unat (iter s)"
  shows "\<exists>r. trackingLoop F M B s = Some r \<and> (\<forall>run. r = Inr run \<longrightarrow> withinCap M run)"
  using assms
proof (induction "unat M - unat (iter s)" arbitrary: s rule: less_induct)
  case less
  have lt: "unat (iter s) < unat M" using less.prems(1) by (simp add: word_less_nat_alt)
  note suc = unat_iter_Suc [OF less.prems(1)]
  show ?case
  proof (cases "trackingIteration F M B s")
    case (Leave r)
    have run: "trackingLoop F M B s = Some r"
      by (subst trackingLoop.simps) (simp add: Leave)
    have "withinCap M s'" if "r = Inr s'" for s'
    proof -
      from that Leave have l: "trackingIteration F M B s = Leave (Inr s')" by simp
      from trackingIteration_Leave(2) [OF l] show ?thesis
      proof (elim disjE conjE)
        assume "iter s' = iter s" "debugLog s' = debugLog s @
            [IterationBegins, FoundPath (length (fst (result s'))) (snd (result s'))]"
        then show ?thesis using less.prems lt
          by (simp add: withinCap_def word_le_nat_alt)
      next
        assume "iter s' = iter s + 1" "debugLog s' = debugLog s @
            [IterationBegins, FoundPath (length (fst (result s'))) (snd (result s')),
             Augmented, IterationDone (iter s) (currentEnergy s')]"
        then show ?thesis using less.prems lt suc
          by (simp add: withinCap_def)
      next
        assume "iter s' = iter s + 1" "debugLog s' = debugLog s @
            [IterationBegins, FoundPath (length (fst (result s'))) (snd (result s')),
             IterationDone (iter s) (currentEnergy s')]"
        then show ?thesis using less.prems lt suc
          by (simp add: withinCap_def)
      qed
    qed
    with run show ?thesis by blast
  next
    case (Repeat s')
    note r = trackingIteration_Repeat [OF Repeat]
    have run: "trackingLoop F M B s = trackingLoop F M B s'"
      by (subst trackingLoop.simps) (simp add: Repeat)
    have M1: "\<not> M < 1" using less.prems(1) by auto
    with r(2) have i': "iter s' < M" using r(1) by simp
    have u': "unat (iter s') = Suc (unat (iter s))" using r(1) suc(1) by simp
    have "unat (iter s') < unat M" using i' by (simp add: word_less_nat_alt)
    then have m: "unat M - unat (iter s') < unat M - unat (iter s)" using u' by simp
    have c: "count_list (debugLog s') Augmented \<le> unat (iter s')"
      "count_list (debugLog s') IterationBegins \<le> unat (iter s')"
      using less.prems(2,3) u' unfolding r(7) by simp_all
    from less.hyps [OF m i' c] run show ?thesis by simp
  qed
qed

text \<open>
  Claim C6.  With \<open>maxNumPaths \<ge> 1\<close> the call ends (it returns or throws), and when it
  returns, the loop has searched for a path at most \<open>maxNumPaths\<close> times, has
  augmented at most \<open>maxNumPaths\<close> times, and \<open>iter\<close> is at most \<open>maxNumPaths\<close>.
\<close>

theorem tracking_iteration_cap:
  assumes "1 \<le> maxNumPaths"
  shows "\<exists>r. maxFlowMinCostTracking findShortestPath g initialStateEnergy useBackArcs maxNumPaths
               useOrderedNodeListInBF partialBFUpdates = Some r \<and>
             (\<forall>run. r = Inr run \<longrightarrow>
                count_list (debugLog run) Augmented \<le> unat maxNumPaths \<and>
                count_list (debugLog run) IterationBegins \<le> unat maxNumPaths \<and>
                iter run \<le> maxNumPaths)"
proof (cases "if residualGraph g = None
            then initializeResidualGraph g useBackArcs useOrderedNodeListInBF
            else Inr g")
  case (Inl err)
  then show ?thesis by (simp add: maxFlowMinCostTracking_def)
next
  case (Inr g0)
  have "(0 :: size_t) < maxNumPaths" using assms by (simp add: word_less_nat_alt word_le_nat_alt)
  from trackingLoop_bounded [of "\<lparr>graph = g0, result = ([], 0), iter = 0,
      currentEnergy = initialStateEnergy, debugLog = []\<rparr>" maxNumPaths findShortestPath partialBFUpdates]
    this Inr
  show ?thesis by (simp add: maxFlowMinCostTracking_def withinCap_def)
qed

subsection \<open>Runs of the single cell\<close>

text \<open>
  The single cell with \<open>maxNumPaths = 1\<close>: the run returns after one augmentation.
\<close>

theorem tracking_iteration_cap_witness:
  "(1 :: size_t) \<le> 1 \<and>
   (\<exists>run. maxFlowMinCostTracking singleCellFinder singleCell 10 True 1 True False = Some (Inr run) \<and>
      count_list (debugLog run) Augmented = 1 \<and>
      count_list (debugLog run) Augmented \<le> unat (1 :: size_t) \<and>
      count_list (debugLog run) IterationBegins \<le> unat (1 :: size_t) \<and>
      iter run \<le> 1)"
proof -
  from singleCell_run [of 10 True 1 True False] obtain run where
    run: "maxFlowMinCostTracking singleCellFinder singleCell 10 True 1 True False = Some (Inr run)"
    and l: "debugLog run = [IterationBegins, FoundPath 3 (- 3), Augmented, IterationDone 0 (10 - 3)]"
    by auto
  have h: "(1 :: size_t) \<le> 1" by simp
  from tracking_iteration_cap [OF h, of singleCellFinder singleCell 10 True True False] run
  have "count_list (debugLog run) Augmented \<le> unat (1 :: size_t) \<and>
      count_list (debugLog run) IterationBegins \<le> unat (1 :: size_t) \<and> iter run \<le> 1"
    by auto
  moreover have "count_list (debugLog run) Augmented = 1" by (simp add: l)
  ultimately show ?thesis using run h by blast
qed

text \<open>
  The single cell without a cap, from energy 10: the run returns 7.
\<close>

theorem tracking_energy_monotone_witness:
  "\<exists>run. maxFlowMinCostTracking singleCellFinder singleCell 10 True 0 True False = Some (Inr run) \<and>
      currentEnergy run = 7 \<and> currentEnergy run \<le> 10 \<and>
      loggedEnergies (debugLog run) = [7] \<and>
      sorted_wrt (\<ge>) (10 # loggedEnergies (debugLog run))"
proof -
  from singleCell_run [of 10 True 0 True False] obtain run where
    run: "maxFlowMinCostTracking singleCellFinder singleCell 10 True 0 True False = Some (Inr run)"
    and e: "currentEnergy run = 10 - 3"
    and l: "debugLog run = [IterationBegins, FoundPath 3 (- 3), Augmented, IterationDone 0 (10 - 3),
        IterationBegins, FoundPath 0 0]"
    by auto
  have "loggedEnergies (debugLog run) = [7]" by (simp add: l loggedEnergies_simps)
  with tracking_energy_monotone [OF run] run e show ?thesis by auto
qed
subsection \<open>Tracking without a cap\<close>

lemma iterations_loop:
  "iterations F M B n s = Some s' \<Longrightarrow> trackingLoop F M B s = trackingLoop F M B s'"
proof (induction n arbitrary: s)
  case 0 then show ?case by simp
next
  case (Suc n)
  then obtain s1 where r: "trackingIteration F M B s = Repeat s1"
    and i: "iterations F M B n s1 = Some s'"
    by (auto split: LoopStep.splits)
  have "trackingLoop F M B s = trackingLoop F M B s1"
    by (subst trackingLoop.simps) (simp add: r)
  with Suc.IH [OF i] show ?case by simp
qed

lemma trackingLoop_iterations:
  assumes "trackingLoop F M B s = Some r"
  shows "\<exists>n s'. iterations F M B n s = Some s' \<and> trackingIteration F M B s' = Leave r"
proof (rule trackingLoop.raw_induct
    [where P = "\<lambda>F M B s r. \<exists>n s'. iterations F M B n s = Some s' \<and>
                                  trackingIteration F M B s' = Leave r", OF _ assms])
  fix loop F M B s r
  assume IH: "\<And>F M B s r. loop F M B s = Some r \<Longrightarrow>
                \<exists>n s'. iterations F M B n s = Some s' \<and> trackingIteration F M B s' = Leave r"
    and eq: "(case trackingIteration F M B s of Leave r \<Rightarrow> Some r
              | Repeat s' \<Rightarrow> loop F M B s') = Some r"
  show "\<exists>n s'. iterations F M B n s = Some s' \<and> trackingIteration F M B s' = Leave r"
  proof (cases "trackingIteration F M B s")
    case (Leave r')
    with eq have "trackingIteration F M B s = Leave r" by simp
    moreover have "iterations F M B 0 s = Some s" by simp
    ultimately show ?thesis by blast
  next
    case (Repeat s1)
    with eq have "loop F M B s1 = Some r" by simp
    from IH [OF this] obtain n s' where
      "iterations F M B n s1 = Some s'" "trackingIteration F M B s' = Leave r" by blast
    with Repeat have "iterations F M B (Suc n) s = Some s'" by simp
    with \<open>trackingIteration F M B s' = Leave r\<close> show ?thesis by blast
  qed
qed

lemma trackingLoop_Some_iff:
  "(trackingLoop F M B s = Some r) =
   (\<exists>n s'. iterations F M B n s = Some s' \<and> trackingIteration F M B s' = Leave r)"
proof
  assume "trackingLoop F M B s = Some r"
  then show "\<exists>n s'. iterations F M B n s = Some s' \<and> trackingIteration F M B s' = Leave r"
    by (rule trackingLoop_iterations)
next
  assume "\<exists>n s'. iterations F M B n s = Some s' \<and> trackingIteration F M B s' = Leave r"
  then obtain n s' where i: "iterations F M B n s = Some s'"
    and l: "trackingIteration F M B s' = Leave r" by blast
  have "trackingLoop F M B s' = Some r"
    by (subst trackingLoop.simps) (simp add: l)
  with iterations_loop [OF i] show "trackingLoop F M B s = Some r" by simp
qed

lemma failing_iteration:
  assumes rg: "residualGraph (graph s) \<noteq> None"
    and found: "F (graph s) B = ((p, c), R)"
    and c: "c \<le> - (1 / 10 ^ 8)" and p: "p \<noteq> []"
    and infeasible: "\<not> pathFeasible (graph s) (flowMap (graph s)) p"
  shows "\<exists>e. trackingIteration F M B s = Leave (Inl e)"
proof -
  let ?g1 = "(graph s)\<lparr>residualGraph := Some R\<rparr>"
  have "residualGraph ?g1 \<noteq> None" by simp
  from augmentUnitFlow_cases [OF this, of p] infeasible
  obtain e where a: "augmentUnitFlow p ?g1 = Inl e"
    by auto
  have c0: "c < 0" and c1: "\<not> c > - (1 / 10 ^ 8)" using c by simp_all
  from rg obtain R0 where R0: "residualGraph (graph s) = Some R0" by blast
  have "trackingIteration F M B s = Leave (Inl e)"
    using p c0 c1 by (simp add: trackingIteration_def R0 found Let_def a)
  then show ?thesis by blast
qed

lemma empty_iteration:
  assumes rg: "residualGraph (graph s) \<noteq> None"
    and found: "F (graph s) B = (([], c), R)"
    and c: "c \<le> - (1 / 10 ^ 8)"
  shows "trackingIteration F M B s =
      Leave (Inr (s\<lparr>graph := (graph s)\<lparr>residualGraph := Some R\<rparr>,
                    result := ([], c),
                    iter := iter s + 1,
                    debugLog := debugLog s @
                      [IterationBegins, FoundPath 0 c, IterationDone (iter s) (currentEnergy s)]\<rparr>))"
proof -
  from rg obtain R0 where R0: "residualGraph (graph s) = Some R0" by blast
  have c1: "\<not> c > - (1 / 10 ^ 8)" using c by simp
  show ?thesis using c1 by (simp add: trackingIteration_def R0 found Let_def)
qed

lemma uncapped_iteration:
  assumes rg: "residualGraph (graph s) \<noteq> None"
  shows "(let found = fst (F (graph s) B);
          s1 = s\<lparr>graph := (graph s)\<lparr>residualGraph := Some (snd (F (graph s) B))\<rparr>,
                 result := found,
                 debugLog := debugLog s @
                   [IterationBegins, FoundPath (length (fst found)) (snd found)]\<rparr>
      in if snd found > - (1 / 10 ^ 8) then
           trackingIteration F 0 B s = Leave (Inr s1)
         else if fst found = [] then
           trackingIteration F 0 B s =
             Leave (Inr (s1\<lparr>iter := iter s + 1,
                             debugLog := debugLog s1 @
                               [IterationDone (iter s) (currentEnergy s)]\<rparr>))
         else if pathFeasible (graph s) (flowMap (graph s)) (fst found) then
           \<exists>R'. trackingIteration F 0 B s =
             Repeat (s\<lparr>graph := (graph s)
                           \<lparr>flowMap := flowsAlong (graph s) (flowMap (graph s)) (fst found),
                            residualGraph := Some R'\<rparr>,
                        result := found,
                        iter := iter s + 1,
                        currentEnergy := currentEnergy s + snd found,
                        debugLog := debugLog s1 @
                          [Augmented, IterationDone (iter s) (currentEnergy s + snd found)]\<rparr>)
         else \<exists>e. trackingIteration F 0 B s = Leave (Inl e))"
proof -
  obtain p c R where found: "F (graph s) B = ((p, c), R)"
    by (metis surj_pair)
  show ?thesis
  proof (cases "c > - (1 / 10 ^ 8)")
    case True
    from stopping_iteration [where s = s and F = F and B = B and p = p and c = c and R = R
        and M = 0, OF rg found True] True show ?thesis
      by (simp add: found Let_def)
  next
    case False
    then have c: "c \<le> - (1 / 10 ^ 8)" by simp
    show ?thesis
    proof (cases "p = []")
      case True
      from empty_iteration [where s = s and F = F and B = B and c = c and R = R and M = 0,
          OF rg found [unfolded True] c] False True show ?thesis
        by (simp add: found Let_def)
    next
      case p: False
      show ?thesis
      proof (cases "pathFeasible (graph s) (flowMap (graph s)) p")
        case True
        from augmenting_iteration [where s = s and F = F and B = B and p = p and c = c and R = R
            and M = 0, OF rg found c p True]
        show ?thesis using False p True by (simp add: found Let_def)
      next
        case f: False
        from failing_iteration [where s = s and F = F and B = B and p = p and c = c and R = R
            and M = 0, OF rg found c p f]
        show ?thesis using False p f by (simp add: found Let_def)
      qed
    qed
  qed
qed


lemma uncapped_run:
  assumes "maxFlowMinCostTracking F g e0 ub 0 uo B = Some (Inr run)"
  shows "stopCondition run \<and>
     count_list (debugLog run) IterationBegins = count_list (debugLog run) Augmented + 1"
proof -
  from assms obtain g0 where
    loop: "trackingLoop F 0 B
            \<lparr>graph = g0, result = ([], 0), iter = 0, currentEnergy = e0,
             debugLog = []\<rparr> = Some (Inr run)"
    by (auto simp: maxFlowMinCostTracking_def split: sum.splits)
  show ?thesis
  proof (rule trackingLoop_rule [OF loop,
        of "\<lambda>s. count_list (debugLog s) IterationBegins = count_list (debugLog s) Augmented"])
    fix s s'
    assume i: "count_list (debugLog s) IterationBegins = count_list (debugLog s) Augmented"
      and l: "trackingIteration F 0 B s = Leave (Inr s')"
    from trackingIteration_Leave(2) [OF l] i
    show "stopCondition s' \<and>
       count_list (debugLog s') IterationBegins = count_list (debugLog s') Augmented + 1"
      by (auto simp: stopCondition_def)
  next
    fix s s'
    assume i: "count_list (debugLog s) IterationBegins = count_list (debugLog s) Augmented"
      and r: "trackingIteration F 0 B s = Repeat s'"
    from trackingIteration_Repeat(7) [OF r] i
    show "count_list (debugLog s') IterationBegins = count_list (debugLog s') Augmented"
      by simp
  qed simp
qed

lemma denseCell_eq:
  "denseCell n =
     \<lparr>baseGraph = \<lparr>numNodes = 4, arcList = [(2, 3), (0, 2), (3, 1)]\<rparr>,
      sourceNode = 0, targets = [1],
      nodeTimestepMap = (\<lambda>_. 0)(0 := 0, 1 := 3, 2 := 1, 3 := 2),
      arcCosts = (\<lambda>_. [])(0 := replicate (Suc n) (- 5), 1 := replicate (Suc n) 1,
                            2 := replicate (Suc n) 1),
      flowMap = (\<lambda>_. 0),
      capacityMap = (\<lambda>_. 0)(0 := 1 + int n, 1 := 1 + int n, 2 := 1 + int n),
      intermediateArcs = {0},
      parentToDuplicateMap = Map.empty, duplicateToParentMap = Map.empty,
      residualGraph = None\<rparr>"
  by (simp add: denseCell_def addNode_def addArc_def
        graphAddNode_def graphAddArc_def FlowGraph_new_def emptyGraph_def Let_def fun_eq_iff)

lemma denseCell_path:
  assumes "k \<le> n"
  shows "pathFeasible (denseCell n) ((\<lambda>_. 0)(1 := int k, 0 := int k, 2 := int k))
           [(1, 1), (0, 1), (2, 1)]"
    and "flowsAlong (denseCell n) ((\<lambda>_. 0)(1 := int k, 0 := int k, 2 := int k))
           [(1, 1), (0, 1), (2, 1)]
         = (\<lambda>_. 0)(1 := int (Suc k), 0 := int (Suc k), 2 := int (Suc k))"
  using assms
  by (simp_all add: denseCell_eq augmentFeasible_def augmentedFlow_def coupledArcOf_def
        validArc_def fun_eq_iff)

lemma pathFeasible_residualGraph:
  "pathFeasible (g\<lparr>flowMap := fm', residualGraph := R\<rparr>) fm p = pathFeasible g fm p"
  "flowsAlong (g\<lparr>flowMap := fm', residualGraph := R\<rparr>) fm p = flowsAlong g fm p"
  by (induction p arbitrary: fm)
     (simp_all add: augmentFeasible_def augmentedFlow_def coupledArcOf_def Let_def
        cong: option.case_cong)

lemma denseCell_loop:
  assumes "graph s = (denseCell n)\<lparr>flowMap := (\<lambda>_. 0)(1 := int k, 0 := int k, 2 := int k),
                                    residualGraph := Some R\<rparr>"
    and "k + m = Suc n"
  shows "\<exists>run. trackingLoop (denseCellFinder n) 0 B s = Some (Inr run) \<and>
     count_list (debugLog run) Augmented = count_list (debugLog s) Augmented + m"
  using assms
proof (induction m arbitrary: k s R)
  case 0
  then have k: "k = Suc n" by simp
  have found: "denseCellFinder n (graph s) B = (([], 0), R)"
    by (simp add: denseCellFinder_def "0.prems"(1) k)
  have rg: "residualGraph (graph s) \<noteq> None" by (simp add: "0.prems"(1))
  from stopping_iteration [where s = s and F = "denseCellFinder n" and B = B and p = "[]"
      and c = 0 and R = R and M = 0, OF rg found]
  have it: "trackingIteration (denseCellFinder n) 0 B s =
      Leave (Inr (s\<lparr>graph := (graph s)\<lparr>residualGraph := Some R\<rparr>,
                    result := ([], 0),
                    debugLog := debugLog s @ [IterationBegins, FoundPath (length ([] :: Path)) 0]\<rparr>))"
    by simp
  have "trackingLoop (denseCellFinder n) 0 B s =
      Some (Inr (s\<lparr>graph := (graph s)\<lparr>residualGraph := Some R\<rparr>,
                    result := ([], 0),
                    debugLog := debugLog s @ [IterationBegins, FoundPath (length ([] :: Path)) 0]\<rparr>))"
    by (subst trackingLoop.simps) (simp only: it LoopStep.case)
  then show ?case by simp
next
  case (Suc m)
  then have k: "k \<le> n" by simp
  let ?p = "[(1, 1), (0, 1), (2, 1)] :: Path"
  let ?fk = "(\<lambda>_. 0)(1 := int k, 0 := int k, 2 := int k)"
  note gs = Suc.prems(1)
  have rg: "residualGraph (graph s) \<noteq> None" by (simp add: gs)
  have found: "denseCellFinder n (graph s) B = ((?p, - 3), R)"
    using k by (simp add: denseCellFinder_def gs)
  have fm: "flowMap (graph s) = ?fk" by (simp add: gs fun_eq_iff)
  have feasible: "pathFeasible (graph s) (flowMap (graph s)) ?p"
    unfolding fm unfolding gs pathFeasible_residualGraph by (rule denseCell_path(1) [OF k])
  have along: "flowsAlong (graph s) (flowMap (graph s)) ?p
      = (\<lambda>_. 0)(1 := int (Suc k), 0 := int (Suc k), 2 := int (Suc k))"
    unfolding fm unfolding gs pathFeasible_residualGraph by (rule denseCell_path(2) [OF k])
  from augmenting_iteration [where s = s and F = "denseCellFinder n" and B = B and p = ?p
      and c = "- 3" and R = R and M = 0, OF rg found _ _ feasible]
  obtain R' where it: "trackingIteration (denseCellFinder n) 0 B s =
      Repeat (s\<lparr>graph := (graph s)\<lparr>flowMap := flowsAlong (graph s) (flowMap (graph s)) ?p,
                                     residualGraph := Some R'\<rparr>,
                    result := (?p, - 3),
                    iter := iter s + 1,
                    currentEnergy := currentEnergy s + (- 3),
                    debugLog := debugLog s @
                      [IterationBegins, FoundPath (length ?p) (- 3), Augmented,
                       IterationDone (iter s) (currentEnergy s + (- 3))]\<rparr>)"
    by (auto simp: Let_def)
  let ?s2 = "s\<lparr>graph := (graph s)\<lparr>flowMap := flowsAlong (graph s) (flowMap (graph s)) ?p,
                                     residualGraph := Some R'\<rparr>,
                    result := (?p, - 3),
                    iter := iter s + 1,
                    currentEnergy := currentEnergy s + (- 3),
                    debugLog := debugLog s @
                      [IterationBegins, FoundPath (length ?p) (- 3), Augmented,
                       IterationDone (iter s) (currentEnergy s + (- 3))]\<rparr>"
  have g2: "graph ?s2 = (denseCell n)\<lparr>flowMap := (\<lambda>_. 0)(1 := int (Suc k), 0 := int (Suc k),
                                        2 := int (Suc k)), residualGraph := Some R'\<rparr>"
    unfolding along by (simp add: gs)
  have km: "Suc k + m = Suc n" using Suc.prems(2) by simp
  from Suc.IH [OF g2 km] obtain run where
    run: "trackingLoop (denseCellFinder n) 0 B ?s2 = Some (Inr run)"
    and cnt: "count_list (debugLog run) Augmented = count_list (debugLog ?s2) Augmented + m"
    by blast
  have "trackingLoop (denseCellFinder n) 0 B s = trackingLoop (denseCellFinder n) 0 B ?s2"
    by (subst trackingLoop.simps) (simp only: it LoopStep.case)
  with run cnt show ?case by simp
qed

lemma denseCell_run:
  "\<exists>run. maxFlowMinCostTracking (denseCellFinder n) (denseCell n) e0 useBackArcs 0
            useOrderedNodeListInBF B = Some (Inr run) \<and>
     count_list (debugLog run) Augmented = Suc n"
proof -
  have "\<forall>x \<in> set (allArcs (baseGraph (denseCell n))).
      0 \<le> flowMap (denseCell n) x \<and> flowMap (denseCell n) x \<le> capacityMap (denseCell n) x"
    by (simp add: denseCell_eq)
  from initializeResidualGraph_tokens [OF this, of useBackArcs useOrderedNodeListInBF]
  obtain R0 where init: "initializeResidualGraph (denseCell n) useBackArcs useOrderedNodeListInBF
                = Inr ((denseCell n)\<lparr>residualGraph := Some R0\<rparr>)" by blast
  let ?s0 = "\<lparr>graph = (denseCell n)\<lparr>residualGraph := Some R0\<rparr>, result = ([], 0), iter = 0,
              currentEnergy = e0, debugLog = []\<rparr>"
  have start: "maxFlowMinCostTracking (denseCellFinder n) (denseCell n) e0 useBackArcs 0
             useOrderedNodeListInBF B = trackingLoop (denseCellFinder n) 0 B ?s0"
  proof -
    have "residualGraph (denseCell n) = None" by (simp add: denseCell_eq)
    then show ?thesis by (simp add: maxFlowMinCostTracking_def init)
  qed
  have g0: "graph ?s0 = (denseCell n)\<lparr>flowMap := (\<lambda>_. 0)(1 := int 0, 0 := int 0, 2 := int 0),
                                    residualGraph := Some R0\<rparr>"
    by (simp add: denseCell_eq fun_eq_iff)
  from denseCell_loop [OF g0, of "Suc n" B] show ?thesis unfolding start by simp
qed

text \<open>
  Claim C9.  With \<open>maxNumPaths = 0\<close> the loop has no cap.  One pass through its body
  is decided by the search alone, whatever \<open>iter\<close> is: it leaves the loop when the cost
  found is above \<open>-1e-8\<close> or the path is empty, and otherwise augments the flow along
  the path and goes back to the loop head (or throws, when the path cannot be
  augmented).  The loop returns exactly what the first pass that leaves it returns,
  after every pass before it has gone back to the loop head.  So a call that returns
  has ended on a search whose result met the stop condition and that augmented nothing:
  it has searched once more than it has augmented.  And the number of augmentations is
  unbounded: on the detection for \<open>n + 1\<close> objects the call augments \<open>n + 1\<close> times.
\<close>

theorem tracking_without_cap:
  "(\<forall>s. residualGraph (graph s) \<noteq> None \<longrightarrow>
      (let found = fst (findShortestPath (graph s) partialBFUpdates);
           s1 = s\<lparr>graph := (graph s)\<lparr>residualGraph :=
                              Some (snd (findShortestPath (graph s) partialBFUpdates))\<rparr>,
                  result := found,
                  debugLog := debugLog s @
                    [IterationBegins, FoundPath (length (fst found)) (snd found)]\<rparr>
       in if snd found > - (1 / 10 ^ 8) then
            trackingIteration findShortestPath 0 partialBFUpdates s = Leave (Inr s1)
          else if fst found = [] then
            trackingIteration findShortestPath 0 partialBFUpdates s =
              Leave (Inr (s1\<lparr>iter := iter s + 1,
                              debugLog := debugLog s1 @
                                [IterationDone (iter s) (currentEnergy s)]\<rparr>))
          else if pathFeasible (graph s) (flowMap (graph s)) (fst found) then
            \<exists>R'. trackingIteration findShortestPath 0 partialBFUpdates s =
              Repeat (s\<lparr>graph := (graph s)
                            \<lparr>flowMap := flowsAlong (graph s) (flowMap (graph s)) (fst found),
                             residualGraph := Some R'\<rparr>,
                         result := found,
                         iter := iter s + 1,
                         currentEnergy := currentEnergy s + snd found,
                         debugLog := debugLog s1 @
                           [Augmented, IterationDone (iter s) (currentEnergy s + snd found)]\<rparr>)
          else \<exists>e. trackingIteration findShortestPath 0 partialBFUpdates s = Leave (Inl e))) \<and>
   (\<forall>s r. (trackingLoop findShortestPath 0 partialBFUpdates s = Some r) =
      (\<exists>n s'. iterations findShortestPath 0 partialBFUpdates n s = Some s' \<and>
              trackingIteration findShortestPath 0 partialBFUpdates s' = Leave r)) \<and>
   (\<forall>g initialStateEnergy useBackArcs useOrderedNodeListInBF run.
      maxFlowMinCostTracking findShortestPath g initialStateEnergy useBackArcs 0
        useOrderedNodeListInBF partialBFUpdates = Some (Inr run)
       \<longrightarrow> stopCondition run \<and>
           count_list (debugLog run) IterationBegins
             = count_list (debugLog run) Augmented + 1) \<and>
   (\<forall>n initialStateEnergy useBackArcs useOrderedNodeListInBF.
      \<exists>run. maxFlowMinCostTracking (denseCellFinder n) (denseCell n) initialStateEnergy
               useBackArcs 0 useOrderedNodeListInBF partialBFUpdates = Some (Inr run) \<and>
            count_list (debugLog run) Augmented = Suc n)"
proof (intro conjI allI impI)
  fix s :: TrackingRun assume "residualGraph (graph s) \<noteq> None"
  then show "let found = fst (findShortestPath (graph s) partialBFUpdates);
           s1 = s\<lparr>graph := (graph s)\<lparr>residualGraph :=
                              Some (snd (findShortestPath (graph s) partialBFUpdates))\<rparr>,
                  result := found,
                  debugLog := debugLog s @
                    [IterationBegins, FoundPath (length (fst found)) (snd found)]\<rparr>
       in if snd found > - (1 / 10 ^ 8) then
            trackingIteration findShortestPath 0 partialBFUpdates s = Leave (Inr s1)
          else if fst found = [] then
            trackingIteration findShortestPath 0 partialBFUpdates s =
              Leave (Inr (s1\<lparr>iter := iter s + 1,
                              debugLog := debugLog s1 @
                                [IterationDone (iter s) (currentEnergy s)]\<rparr>))
          else if pathFeasible (graph s) (flowMap (graph s)) (fst found) then
            \<exists>R'. trackingIteration findShortestPath 0 partialBFUpdates s =
              Repeat (s\<lparr>graph := (graph s)
                            \<lparr>flowMap := flowsAlong (graph s) (flowMap (graph s)) (fst found),
                             residualGraph := Some R'\<rparr>,
                         result := found,
                         iter := iter s + 1,
                         currentEnergy := currentEnergy s + snd found,
                         debugLog := debugLog s1 @
                           [Augmented, IterationDone (iter s) (currentEnergy s + snd found)]\<rparr>)
          else \<exists>e. trackingIteration findShortestPath 0 partialBFUpdates s = Leave (Inl e)"
    by (rule uncapped_iteration)
next
  fix s r
  show "(trackingLoop findShortestPath 0 partialBFUpdates s = Some r) =
      (\<exists>n s'. iterations findShortestPath 0 partialBFUpdates n s = Some s' \<and>
              trackingIteration findShortestPath 0 partialBFUpdates s' = Leave r)"
    by (rule trackingLoop_Some_iff)
next
  fix g initialStateEnergy useBackArcs useOrderedNodeListInBF run
  assume run: "maxFlowMinCostTracking findShortestPath g initialStateEnergy useBackArcs 0
        useOrderedNodeListInBF partialBFUpdates = Some (Inr run)"
  from uncapped_run [OF run]
  show "stopCondition run" 
    and "count_list (debugLog run) IterationBegins = count_list (debugLog run) Augmented + 1"
    by simp_all
next
  fix n initialStateEnergy useBackArcs useOrderedNodeListInBF
  show "\<exists>run. maxFlowMinCostTracking (denseCellFinder n) (denseCell n) initialStateEnergy
               useBackArcs 0 useOrderedNodeListInBF partialBFUpdates = Some (Inr run) \<and>
            count_list (debugLog run) Augmented = Suc n"
    by (rule denseCell_run)
qed


text \<open>
  The single cell without a cap: the first pass augments along the three arcs and goes
  back to the loop head, the second pass finds the empty path and leaves the loop, and
  the loop returns what the second pass returns, with two searches and one augmentation
  in its log.  The detection for three objects is augmented three times.  A search that
  returns the empty path with cost -1 ends the loop after counting the iteration, and
  one that returns a path taking flow from the unused appearance arc makes the call
  throw.
\<close>

theorem tracking_without_cap_witness:
  "(\<exists>s1 run.
      trackingIteration singleCellFinder 0 False singleCellStart = Repeat s1 \<and>
      flowMap (graph s1) = (\<lambda>_. 0)(1 := 1, 0 := 1, 2 := 1) \<and>
      iter s1 = 1 \<and>
      iterations singleCellFinder 0 False 1 singleCellStart = Some s1 \<and>
      trackingIteration singleCellFinder 0 False s1 = Leave (Inr run) \<and>
      trackingLoop singleCellFinder 0 False singleCellStart = Some (Inr run) \<and>
      result run = ([], 0) \<and> iter run = 1 \<and> currentEnergy run = 7 \<and>
      debugLog run = [IterationBegins, FoundPath 3 (- 3), Augmented, IterationDone 0 7,
                      IterationBegins, FoundPath 0 0]) \<and>
   (\<exists>run. maxFlowMinCostTracking singleCellFinder singleCell 10 True 0 True False
            = Some (Inr run) \<and>
      stopCondition run \<and> result run = ([], 0) \<and>
      count_list (debugLog run) IterationBegins = 2 \<and>
      count_list (debugLog run) Augmented = 1) \<and>
   (\<exists>run. maxFlowMinCostTracking (denseCellFinder 2) (denseCell 2) 10 True 0 True False
            = Some (Inr run) \<and>
      count_list (debugLog run) Augmented = 3) \<and>
   (\<exists>run. trackingIteration (\<lambda>g b. (([], - 1), newResidualGraph)) 0 False singleCellStart
            = Leave (Inr run) \<and>
      result run = ([], - 1) \<and> iter run = 1 \<and> currentEnergy run = 10 \<and>
      debugLog run = [IterationBegins, FoundPath 0 (- 1), IterationDone 0 10]) \<and>
   (\<exists>e. trackingIteration (\<lambda>g b. (([(1, - 1)], - 1), newResidualGraph)) 0 False
           singleCellStart = Leave (Inl e))"
proof -
  note t = tracking_without_cap [of singleCellFinder False]
  let ?p = "[(1, 1), (0, 1), (2, 1)] :: Path"
  have fm: "flowMap singleCell = (\<lambda>_. 0)" by (simp add: singleCell_eq)
  have f1: "singleCellFinder (graph singleCellStart) False = ((?p, - 3), newResidualGraph)"
    by (simp add: singleCellFinder_def singleCellStart_def singleCell_eq)
  have p1: "pathFeasible (graph singleCellStart) (flowMap (graph singleCellStart)) ?p"
    using singleCell_path(1) by (simp add: fm singleCellStart_def)
  have a1: "flowsAlong (graph singleCellStart) (flowMap (graph singleCellStart)) ?p
      = (\<lambda>_. 0)(1 := 1, 0 := 1, 2 := 1)"
    using singleCell_path(2) by (simp add: fm singleCellStart_def)
  have rg1: "residualGraph (graph singleCellStart) \<noteq> None" by (simp add: singleCellStart_def)
  have c1: "\<not> (- (1 / 10 ^ 8) < (- 3 :: real))" by simp
  have ne: "?p \<noteq> []" by simp
  from t [THEN conjunct1, rule_format, OF rg1, unfolded f1 Let_def fst_conv snd_conv]
  have "\<exists>R'. trackingIteration singleCellFinder 0 False singleCellStart =
      Repeat (singleCellStart\<lparr>graph := (graph singleCellStart)
                            \<lparr>flowMap := flowsAlong (graph singleCellStart)
                                          (flowMap (graph singleCellStart)) ?p,
                             residualGraph := Some R'\<rparr>,
                         result := (?p, - 3),
                         iter := iter singleCellStart + 1,
                         currentEnergy := currentEnergy singleCellStart + (- 3),
                         debugLog := debugLog (singleCellStart
                             \<lparr>graph := (graph singleCellStart)
                                \<lparr>residualGraph := Some newResidualGraph\<rparr>,
                              result := (?p, - 3),
                              debugLog := debugLog singleCellStart @
                                [IterationBegins, FoundPath (length ?p) (- 3)]\<rparr>) @
                           [Augmented, IterationDone (iter singleCellStart)
                              (currentEnergy singleCellStart + (- 3))]\<rparr>)"
    by (simp only: c1 ne p1 if_True if_False)
  then obtain R' where it1: "trackingIteration singleCellFinder 0 False singleCellStart =
      Repeat (singleCellStart\<lparr>graph := (graph singleCellStart)
                            \<lparr>flowMap := (\<lambda>_. 0)(1 := 1, 0 := 1, 2 := 1),
                             residualGraph := Some R'\<rparr>,
                         result := (?p, - 3),
                         iter := iter singleCellStart + 1,
                         currentEnergy := currentEnergy singleCellStart + (- 3),
                         debugLog := debugLog singleCellStart @
                           [IterationBegins, FoundPath 3 (- 3), Augmented,
                            IterationDone (iter singleCellStart)
                              (currentEnergy singleCellStart + (- 3))]\<rparr>)"
    unfolding a1 by (auto simp: numeral_3_eq_3)
  define s1 where "s1 = singleCellStart\<lparr>graph := (graph singleCellStart)
                            \<lparr>flowMap := (\<lambda>_. 0)(1 := 1, 0 := 1, 2 := 1),
                             residualGraph := Some R'\<rparr>,
                         result := (?p, - 3),
                         iter := iter singleCellStart + 1,
                         currentEnergy := currentEnergy singleCellStart + (- 3),
                         debugLog := debugLog singleCellStart @
                           [IterationBegins, FoundPath 3 (- 3), Augmented,
                            IterationDone (iter singleCellStart)
                              (currentEnergy singleCellStart + (- 3))]\<rparr>"
  have it1': "trackingIteration singleCellFinder 0 False singleCellStart = Repeat s1"
    using it1 by (simp add: s1_def)
  have rg2: "residualGraph (graph s1) \<noteq> None" by (simp add: s1_def)
  have f2: "singleCellFinder (graph s1) False = (([], 0), R')"
    by (simp add: singleCellFinder_def s1_def)
  define run where "run = s1\<lparr>graph := (graph s1)\<lparr>residualGraph := Some R'\<rparr>,
      result := ([], 0),
      debugLog := debugLog s1 @ [IterationBegins, FoundPath 0 0]\<rparr>"
  from t [THEN conjunct2, THEN conjunct1, rule_format, of s1 "Inr run"]
  have loop_iff: "(trackingLoop singleCellFinder 0 False s1 = Some (Inr run)) =
      (\<exists>n s'. iterations singleCellFinder 0 False n s1 = Some s' \<and>
              trackingIteration singleCellFinder 0 False s' = Leave (Inr run))" .
  from t [THEN conjunct1, rule_format, OF rg2]
  have it2: "trackingIteration singleCellFinder 0 False s1 = Leave (Inr run)"
    unfolding f2 Let_def fst_conv snd_conv by (simp add: run_def)
  have i1: "iterations singleCellFinder 0 False 1 singleCellStart = Some s1"
    by (simp add: it1')
  from t [THEN conjunct2, THEN conjunct1, rule_format, of singleCellStart "Inr run"] i1 it2
  have loop: "trackingLoop singleCellFinder 0 False singleCellStart = Some (Inr run)"
    by blast
  have first: "\<exists>s1 run.
      trackingIteration singleCellFinder 0 False singleCellStart = Repeat s1 \<and>
      flowMap (graph s1) = (\<lambda>_. 0)(1 := 1, 0 := 1, 2 := 1) \<and>
      iter s1 = 1 \<and>
      iterations singleCellFinder 0 False 1 singleCellStart = Some s1 \<and>
      trackingIteration singleCellFinder 0 False s1 = Leave (Inr run) \<and>
      trackingLoop singleCellFinder 0 False singleCellStart = Some (Inr run) \<and>
      result run = ([], 0) \<and> iter run = 1 \<and> currentEnergy run = 7 \<and>
      debugLog run = [IterationBegins, FoundPath 3 (- 3), Augmented, IterationDone 0 7,
                      IterationBegins, FoundPath 0 0]"
  proof (intro exI conjI)
    show "trackingIteration singleCellFinder 0 False singleCellStart = Repeat s1" by (rule it1')
    show "iterations singleCellFinder 0 False 1 singleCellStart = Some s1" by (rule i1)
    show "trackingIteration singleCellFinder 0 False s1 = Leave (Inr run)" by (rule it2)
    show "trackingLoop singleCellFinder 0 False singleCellStart = Some (Inr run)" by (rule loop)
    show "flowMap (graph s1) = (\<lambda>_. 0)(1 := 1, 0 := 1, 2 := 1)" by (simp add: s1_def fun_eq_iff)
    show "iter s1 = 1" by (simp add: s1_def singleCellStart_def)
    show "result run = ([], 0)" by (simp add: run_def)
    show "iter run = 1" by (simp add: run_def s1_def singleCellStart_def)
    show "currentEnergy run = 7" by (simp add: run_def s1_def singleCellStart_def)
    show "debugLog run = [IterationBegins, FoundPath 3 (- 3), Augmented, IterationDone 0 7,
                      IterationBegins, FoundPath 0 0]"
      by (simp add: run_def s1_def singleCellStart_def)
  qed
  from singleCell_run [of 10 True 0 True False] obtain run2 where
    r2: "maxFlowMinCostTracking singleCellFinder singleCell 10 True 0 True False = Some (Inr run2)"
    and l2: "debugLog run2 = [IterationBegins, FoundPath 3 (- 3), Augmented, IterationDone 0 (10 - 3),
        IterationBegins, FoundPath 0 0]"
    and res2: "result run2 = ([], 0)"
    by auto
  from t [THEN conjunct2, THEN conjunct2, THEN conjunct1, rule_format, OF r2]
  have "stopCondition run2" by simp
  moreover have "count_list (debugLog run2) IterationBegins = 2"
    "count_list (debugLog run2) Augmented = 1" by (simp_all add: l2)
  ultimately have second: "\<exists>run. maxFlowMinCostTracking singleCellFinder singleCell 10 True 0 True False
            = Some (Inr run) \<and>
      stopCondition run \<and> result run = ([], 0) \<and>
      count_list (debugLog run) IterationBegins = 2 \<and>
      count_list (debugLog run) Augmented = 1"
    using r2 res2 by blast
  from t [THEN conjunct2, THEN conjunct2, THEN conjunct2, rule_format, of 2 10 True True]
  have third: "\<exists>run. maxFlowMinCostTracking (denseCellFinder 2) (denseCell 2) 10 True 0 True False
            = Some (Inr run) \<and>
      count_list (debugLog run) Augmented = 3"
    by simp
  have c2: "\<not> (- (1 / 10 ^ 8) < (- 1 :: real))" by simp
  from tracking_without_cap [of "\<lambda>g b. (([], - 1), newResidualGraph)" False,
      THEN conjunct1, rule_format, OF rg1, unfolded Let_def fst_conv snd_conv]
  have "trackingIteration (\<lambda>g b. (([], - 1), newResidualGraph)) 0 False singleCellStart =
      Leave (Inr (singleCellStart
          \<lparr>graph := (graph singleCellStart)\<lparr>residualGraph := Some newResidualGraph\<rparr>,
           result := ([], - 1),
           debugLog := debugLog singleCellStart @
             [IterationBegins, FoundPath (length ([] :: Path)) (- 1)]\<rparr>
          \<lparr>iter := iter singleCellStart + 1,
           debugLog := debugLog (singleCellStart
              \<lparr>graph := (graph singleCellStart)\<lparr>residualGraph := Some newResidualGraph\<rparr>,
               result := ([], - 1),
               debugLog := debugLog singleCellStart @
                 [IterationBegins, FoundPath (length ([] :: Path)) (- 1)]\<rparr>) @
             [IterationDone (iter singleCellStart) (currentEnergy singleCellStart)]\<rparr>))"
    by (simp only: c2 if_True if_False)
  then have fourth: "\<exists>run. trackingIteration (\<lambda>g b. (([], - 1), newResidualGraph)) 0 False
        singleCellStart = Leave (Inr run) \<and>
      result run = ([], - 1) \<and> iter run = 1 \<and> currentEnergy run = 10 \<and>
      debugLog run = [IterationBegins, FoundPath 0 (- 1), IterationDone 0 10]"
    by (simp add: singleCellStart_def)
  have ne2: "[(1, - 1)] \<noteq> ([] :: Path)" by simp
  have p2: "\<not> pathFeasible (graph singleCellStart) (flowMap (graph singleCellStart)) [(1, - 1)]"
    by (simp add: singleCellStart_def fm augmentFeasible_def)
  from tracking_without_cap [of "\<lambda>g b. (([(1, - 1)], - 1), newResidualGraph)" False,
      THEN conjunct1, rule_format, OF rg1, unfolded Let_def fst_conv snd_conv]
  have fifth: "\<exists>e. trackingIteration (\<lambda>g b. (([(1, - 1)], - 1), newResidualGraph)) 0 False
           singleCellStart = Leave (Inl e)"
    by (simp only: c2 ne2 p2 if_True if_False)
  from first second third fourth fifth show ?thesis by blast
qed
subsection \<open>Synchronizing the flows of coupled arcs\<close>

lemma firstOutArcTo_Some:
  assumes "firstOutArcTo G n t = Some y"
  shows "validArc G y" "source G y = n" "target G y = t"
  using assms unfolding firstOutArcTo_def find_Some_iff
  by (auto simp: set_outArcs dest: nth_mem)

lemma firstOutArcTo_None:
  "firstOutArcTo G n t = None \<longleftrightarrow> \<not> (\<exists>y. validArc G y \<and> source G y = n \<and> target G y = t)"
  unfolding firstOutArcTo_def find_None_iff by (auto simp: set_outArcs)

lemma firstOutArcTo_unique:
  assumes "uniqueTargets G n" and "validArc G y" "source G y = n" "target G y = t"
  shows "firstOutArcTo G n t = Some y"
proof (cases "firstOutArcTo G n t")
  case None
  with assms(2-4) show ?thesis by (auto simp: firstOutArcTo_None)
next
  case (Some z)
  from firstOutArcTo_Some [OF Some] assms have "z = y"
    unfolding uniqueTargets_def by blast
  with Some show ?thesis by simp
qed

lemma divisionWellFormedD:
  assumes "divisionWellFormed g" and "parentToDuplicateMap g n = Some d"
  shows "duplicateToParentMap g d = Some n" "n < numNodes (baseGraph g)"
    "parentToDuplicateMap g d = None"
    "uniqueTargets (baseGraph g) n" "uniqueTargets (baseGraph g) d"
proof -
  from assms(1) have "\<forall>n d. parentToDuplicateMap g n = Some d \<longrightarrow>
          duplicateToParentMap g d = Some n \<and> n < numNodes (baseGraph g) \<and>
          parentToDuplicateMap g d = None \<and>
          uniqueTargets (baseGraph g) n \<and> uniqueTargets (baseGraph g) d"
    unfolding divisionWellFormed_def .
  then have "duplicateToParentMap g d = Some n \<and> n < numNodes (baseGraph g) \<and>
          parentToDuplicateMap g d = None \<and>
          uniqueTargets (baseGraph g) n \<and> uniqueTargets (baseGraph g) d"
    using assms(2) by (elim allE impE) assumption+
  then show "duplicateToParentMap g d = Some n" "n < numNodes (baseGraph g)"
    "parentToDuplicateMap g d = None"
    "uniqueTargets (baseGraph g) n" "uniqueTargets (baseGraph g) d"
    by blast+
qed

lemma coupledD:
  assumes "coupled g x y"
  shows "validArc (baseGraph g) x" "validArc (baseGraph g) y"
    "target (baseGraph g) x = target (baseGraph g) y"
    "parentToDuplicateMap g (source (baseGraph g) x) = Some (source (baseGraph g) y)"
  using assms by (simp_all add: coupled_def)

lemma uniqueTargetsD:
  assumes "uniqueTargets G n" "validArc G x" "validArc G y" "source G x = n" "source G y = n"
    "target G x = target G y"
  shows "x = y"
proof -
  from assms(1) have "validArc G x \<and> validArc G y \<and> source G x = n \<and> source G y = n \<and>
            target G x = target G y \<longrightarrow> x = y"
    unfolding uniqueTargets_def by (elim allE)
  with assms(2-6) show ?thesis by (elim impE) (intro conjI, assumption+)
qed

lemma coupled_facts:
  assumes wf: "divisionWellFormed g"
  shows "coupled g x y \<Longrightarrow> coupled g x y' \<Longrightarrow> y = y'"
    and "coupled g x y \<Longrightarrow> coupled g x' y \<Longrightarrow> x = x'"
    and "coupled g x y \<Longrightarrow> \<not> coupled g y z"
    and "coupled g x y \<Longrightarrow> \<not> coupled g z x"
    and "coupled g x y \<Longrightarrow> x \<noteq> y"
proof -
  let ?G = "baseGraph g"
  { assume a: "coupled g x y" and b: "coupled g x y'"
    note ca = coupledD [OF a] and cb = coupledD [OF b]
    have s: "source ?G y' = source ?G y" using ca(4) cb(4) by simp
    have t: "target ?G y = target ?G y'" using ca(3) cb(3) by simp
    from uniqueTargetsD [OF divisionWellFormedD(5) [OF wf ca(4)] ca(2) cb(2) refl s t]
    show "y = y'" . }
  { assume a: "coupled g x y" and b: "coupled g x' y"
    note ca = coupledD [OF a] and cb = coupledD [OF b]
    have "Some (source ?G x) = Some (source ?G x')"
      using divisionWellFormedD(1) [OF wf ca(4)] divisionWellFormedD(1) [OF wf cb(4)] by simp
    then have s: "source ?G x' = source ?G x" by simp
    have t: "target ?G x = target ?G x'" using ca(3) cb(3) by simp
    from uniqueTargetsD [OF divisionWellFormedD(4) [OF wf ca(4)] ca(1) cb(1) refl s t]
    show "x = x'" . }
  { assume a: "coupled g x y"
    note ca = coupledD [OF a]
    show "\<not> coupled g y z"
    proof
      assume "coupled g y z"
      from coupledD(4) [OF this] divisionWellFormedD(3) [OF wf ca(4)] show False by simp
    qed }
  { assume a: "coupled g x y"
    note ca = coupledD [OF a]
    show "\<not> coupled g z x"
    proof
      assume "coupled g z x"
      from divisionWellFormedD(3) [OF wf coupledD(4) [OF this]] ca(4) show False by simp
    qed }
  { assume a: "coupled g x y"
    note ca = coupledD [OF a]
    show "x \<noteq> y"
    proof
      assume "x = y"
      with ca(4) divisionWellFormedD(3) [OF wf ca(4)] show False by simp
    qed }
qed

lemma coupled_firstOutArcTo:
  assumes wf: "divisionWellFormed g" and v: "validArc (baseGraph g) x"
    and p: "parentToDuplicateMap g (source (baseGraph g) x) = Some d"
  shows "firstOutArcTo (baseGraph g) d (target (baseGraph g) x) = Some y \<longleftrightarrow> coupled g x y"
proof
  assume "firstOutArcTo (baseGraph g) d (target (baseGraph g) x) = Some y"
  from firstOutArcTo_Some [OF this] v p show "coupled g x y" by (simp add: coupled_def)
next
  assume c: "coupled g x y"
  note cd = coupledD [OF c]
  have s: "source (baseGraph g) y = d" using cd(4) p by simp
  show "firstOutArcTo (baseGraph g) d (target (baseGraph g) x) = Some y"
    by (rule firstOutArcTo_unique [OF divisionWellFormedD(5) [OF wf p] cd(2) s]) (simp add: cd(3))
qed

lemma synchronized_step:
  assumes wf: "divisionWellFormed g" and inv: "synchronized g S fm"
    and v: "validArc (baseGraph g) x"
    and p: "parentToDuplicateMap g (source (baseGraph g) x) = Some d"
  shows "\<exists>fm'. synchronizeArc d x (g\<lparr>flowMap := fm\<rparr>) = g\<lparr>flowMap := fm'\<rparr> \<and>
           synchronized g (insert x S) fm'"
proof (cases "firstOutArcTo (baseGraph g) d (target (baseGraph g) x)")
  case None
  have no: "\<not> coupled g x y" for y
    using coupled_firstOutArcTo [OF wf v p, of y] None by simp
  have "synchronizeArc d x (g\<lparr>flowMap := fm\<rparr>) = g\<lparr>flowMap := fm\<rparr>"
    using None by (simp add: synchronizeArc_def)
  moreover have "synchronized g (insert x S) fm"
    unfolding synchronized_def
  proof (intro conjI allI impI)
    fix x1 y1 assume a: "x1 \<in> insert x S \<and> coupled g x1 y1"
    with no have "x1 \<in> S" by auto
    with a inv show "fm x1 = max (flowMap g x1) (flowMap g y1)"
      "fm y1 = min (max (flowMap g x1) (flowMap g y1)) 1"
      unfolding synchronized_def by blast+
  next
    fix z assume "\<forall>x1 y1. x1 \<in> insert x S \<and> coupled g x1 y1 \<longrightarrow> z \<noteq> x1 \<and> z \<noteq> y1"
    then have "\<forall>x1 y1. x1 \<in> S \<and> coupled g x1 y1 \<longrightarrow> z \<noteq> x1 \<and> z \<noteq> y1" by blast
    with inv show "fm z = flowMap g z" unfolding synchronized_def by blast
  qed
  ultimately show ?thesis by blast
next
  case (Some y)
  then have c: "coupled g x y" using coupled_firstOutArcTo [OF wf v p] by simp
  note cf = coupled_facts [OF wf]
  have xy: "x \<noteq> y" using cf(5) [OF c] .
  let ?m = "max (fm x) (fm y)"
  let ?M = "max (flowMap g x) (flowMap g y)"
  let ?fm' = "fm(y := min ?m 1, x := ?m)"
  have run: "synchronizeArc d x (g\<lparr>flowMap := fm\<rparr>) = g\<lparr>flowMap := ?fm'\<rparr>"
    using Some by (simp add: synchronizeArc_def Let_def)
  have m: "?m = ?M" and same: "x \<in> S \<Longrightarrow> ?fm' = fm"
  proof -
    show "?m = ?M"
    proof (cases "x \<in> S")
      case True
      with inv c have "fm x = ?M" "fm y = min ?M 1" unfolding synchronized_def by blast+
      then show ?thesis by simp
    next
      case False
      have "fm x = flowMap g x"
      proof -
        have "\<forall>x1 y1. x1 \<in> S \<and> coupled g x1 y1 \<longrightarrow> x \<noteq> x1 \<and> x \<noteq> y1"
          using False cf(4) [OF c] by blast
        with inv show ?thesis unfolding synchronized_def by blast
      qed
      moreover have "fm y = flowMap g y"
      proof -
        have "\<forall>x1 y1. x1 \<in> S \<and> coupled g x1 y1 \<longrightarrow> y \<noteq> x1 \<and> y \<noteq> y1"
        proof (intro allI impI)
          fix x1 y1 assume a: "x1 \<in> S \<and> coupled g x1 y1"
          have "y \<noteq> x1" using a cf(3) [OF c] by blast
          moreover have "y \<noteq> y1"
          proof
            assume "y = y1"
            with a c cf(2) have "x1 = x" by blast
            with a False show False by simp
          qed
          ultimately show "y \<noteq> x1 \<and> y \<noteq> y1" by simp
        qed
        with inv show ?thesis unfolding synchronized_def by blast
      qed
      ultimately show ?thesis by simp
    qed
    assume "x \<in> S"
    with inv c have "fm x = ?M" "fm y = min ?M 1" unfolding synchronized_def by blast+
    then show "?fm' = fm" by (auto simp: fun_eq_iff)
  qed
  have "synchronized g (insert x S) ?fm'"
  proof (cases "x \<in> S")
    case True
    then have "insert x S = S" by blast
    with same [OF True] inv show ?thesis by simp
  next
    case False
    show ?thesis unfolding synchronized_def
    proof (intro conjI allI impI)
      fix x1 y1 assume a: "x1 \<in> insert x S \<and> coupled g x1 y1"
      have both: "?fm' x1 = max (flowMap g x1) (flowMap g y1)
          \<and> ?fm' y1 = min (max (flowMap g x1) (flowMap g y1)) 1"
      proof (cases "x1 = x")
        case True
        with a c cf(1) have "y1 = y" by blast
        with True xy m show ?thesis by simp
      next
        case F: False
        with a have s: "x1 \<in> S" and c1: "coupled g x1 y1" by blast+
        have "x1 \<noteq> y" using c1 cf(3) [OF c] by blast
        moreover have "y1 \<noteq> x" using c1 cf(4) [OF c] by blast
        moreover have "y1 \<noteq> y"
        proof
          assume "y1 = y"
          with c1 c cf(2) have "x1 = x" by blast
          with F show False by simp
        qed
        moreover from inv s c1 have "fm x1 = max (flowMap g x1) (flowMap g y1)"
          "fm y1 = min (max (flowMap g x1) (flowMap g y1)) 1"
          unfolding synchronized_def by blast+
        ultimately show ?thesis using F by simp
      qed
      from both show "?fm' x1 = max (flowMap g x1) (flowMap g y1)" by (rule conjunct1)
      from both show "?fm' y1 = min (max (flowMap g x1) (flowMap g y1)) 1" by (rule conjunct2)
    next
      fix z assume a: "\<forall>x1 y1. x1 \<in> insert x S \<and> coupled g x1 y1 \<longrightarrow> z \<noteq> x1 \<and> z \<noteq> y1"
      then have "z \<noteq> x" "z \<noteq> y" using c by blast+
      moreover from a have "\<forall>x1 y1. x1 \<in> S \<and> coupled g x1 y1 \<longrightarrow> z \<noteq> x1 \<and> z \<noteq> y1" by blast
      with inv have "fm z = flowMap g z" unfolding synchronized_def by blast
      ultimately show "?fm' z = flowMap g z" by simp
    qed
  qed
  with run show ?thesis by blast
qed

lemma synchronized_arcs:
  assumes wf: "divisionWellFormed g" and p: "parentToDuplicateMap g n = Some d"
    and inv: "synchronized g S fm"
    and xs: "\<forall>x \<in> set xs. validArc (baseGraph g) x \<and> source (baseGraph g) x = n"
  shows "\<exists>fm'. fold (synchronizeArc d) xs (g\<lparr>flowMap := fm\<rparr>) = g\<lparr>flowMap := fm'\<rparr> \<and>
           synchronized g (S \<union> set xs) fm'"
  using inv xs
proof (induction xs arbitrary: S fm)
  case Nil
  then show ?case by auto
next
  case (Cons x xs)
  from Cons.prems(2) have v: "validArc (baseGraph g) x"
    and px: "parentToDuplicateMap g (source (baseGraph g) x) = Some d" using p by simp_all
  from synchronized_step [OF wf Cons.prems(1) v px] obtain fm1 where
    1: "synchronizeArc d x (g\<lparr>flowMap := fm\<rparr>) = g\<lparr>flowMap := fm1\<rparr>"
    and i1: "synchronized g (insert x S) fm1" by blast
  from Cons.prems(2) have "\<forall>x \<in> set xs. validArc (baseGraph g) x \<and> source (baseGraph g) x = n"
    by simp
  from Cons.IH [OF i1 this] obtain fm' where
    "fold (synchronizeArc d) xs (g\<lparr>flowMap := fm1\<rparr>) = g\<lparr>flowMap := fm'\<rparr>"
    "synchronized g (insert x S \<union> set xs) fm'" by blast
  then show ?case using 1 by auto
qed

lemma synchronized_nodes:
  assumes wf: "divisionWellFormed g"
    and inv: "synchronized g S fm"
    and ps: "\<forall>c \<in> set ps. parentToDuplicateMap g (fst c) = Some (snd c)"
  shows "\<exists>fm'. fold (\<lambda>c h. fold (synchronizeArc (snd c)) (outArcs (baseGraph h) (fst c)) h) ps
                 (g\<lparr>flowMap := fm\<rparr>) = g\<lparr>flowMap := fm'\<rparr> \<and>
           synchronized g
             (S \<union> {x. validArc (baseGraph g) x \<and> source (baseGraph g) x \<in> fst ` set ps}) fm'"
  using inv ps
proof (induction ps arbitrary: S fm)
  case Nil
  then show ?case by auto
next
  case (Cons c ps)
  from Cons.prems(2) have p: "parentToDuplicateMap g (fst c) = Some (snd c)" by simp
  have xs: "\<forall>x \<in> set (outArcs (baseGraph g) (fst c)).
      validArc (baseGraph g) x \<and> source (baseGraph g) x = fst c"
    by (simp add: set_outArcs)
  from synchronized_arcs [OF wf p Cons.prems(1) xs] obtain fm1 where
    1: "fold (synchronizeArc (snd c)) (outArcs (baseGraph g) (fst c)) (g\<lparr>flowMap := fm\<rparr>)
          = g\<lparr>flowMap := fm1\<rparr>"
    and i1: "synchronized g (S \<union> set (outArcs (baseGraph g) (fst c))) fm1" by blast
  from Cons.prems(2) have "\<forall>c \<in> set ps. parentToDuplicateMap g (fst c) = Some (snd c)" by simp
  from Cons.IH [OF i1 this] obtain fm' where
    2: "fold (\<lambda>c h. fold (synchronizeArc (snd c)) (outArcs (baseGraph h) (fst c)) h) ps
                 (g\<lparr>flowMap := fm1\<rparr>) = g\<lparr>flowMap := fm'\<rparr>"
    and i2: "synchronized g (S \<union> set (outArcs (baseGraph g) (fst c)) \<union>
         {x. validArc (baseGraph g) x \<and> source (baseGraph g) x \<in> fst ` set ps}) fm'" by blast
  have "S \<union> set (outArcs (baseGraph g) (fst c)) \<union>
         {x. validArc (baseGraph g) x \<and> source (baseGraph g) x \<in> fst ` set ps}
      = S \<union> {x. validArc (baseGraph g) x \<and> source (baseGraph g) x \<in> fst ` set (c # ps)}"
    by (auto simp: set_outArcs)
  with i2 have "synchronized g
      (S \<union> {x. validArc (baseGraph g) x \<and> source (baseGraph g) x \<in> fst ` set (c # ps)}) fm'"
    by simp
  then show ?case using 1 2 by auto
qed

lemma set_coupledNodes:
  "set (coupledNodes g) =
     {c. fst c < numNodes (baseGraph g) \<and> parentToDuplicateMap g (fst c) = Some (snd c)}"
proof -
  have "set (List.map_filter f xs) = {y. \<exists>x \<in> set xs. f x = Some y}" for f :: "nat \<Rightarrow> (nat \<times> nat) option" and xs
    by (induction xs) (auto split: option.splits)
  then show ?thesis by (auto simp: coupledNodes_def)
qed

text \<open>
  Claim C10, for graphs in which no two out-arcs of a parent or of a duplicate share a
  target.  \<open>synchronizeDivisionDuplicateArcFlows\<close> changes the flow map only; for every
  pair of coupled arcs, with \<open>m\<close> the larger of their two flows before the call, the arc
  of the parent carries \<open>m\<close> and the arc of the duplicate \<open>min m 1\<close> afterwards; the flow
  of every arc that belongs to no such pair is unchanged.
\<close>

theorem synchronize_flows:
  assumes wf: "divisionWellFormed g"
  shows "\<exists>fm. synchronizeDivisionDuplicateArcFlows g = g\<lparr>flowMap := fm\<rparr> \<and>
     (\<forall>x y. coupled g x y \<longrightarrow>
        fm x = max (flowMap g x) (flowMap g y) \<and>
        fm y = min (max (flowMap g x) (flowMap g y)) 1) \<and>
     (\<forall>z. (\<forall>w. \<not> coupled g z w \<and> \<not> coupled g w z) \<longrightarrow> fm z = flowMap g z)"
proof -
  have g: "g\<lparr>flowMap := flowMap g\<rparr> = g" by simp
  have i0: "synchronized g {} (flowMap g)" by (simp add: synchronized_def)
  have ps: "\<forall>c \<in> set (coupledNodes g). parentToDuplicateMap g (fst c) = Some (snd c)"
    by (simp add: set_coupledNodes)
  from synchronized_nodes [OF wf i0 ps] obtain fm where
    run: "synchronizeDivisionDuplicateArcFlows g = g\<lparr>flowMap := fm\<rparr>"
    and inv: "synchronized g
      ({} \<union> {x. validArc (baseGraph g) x \<and> source (baseGraph g) x \<in> fst ` set (coupledNodes g)}) fm"
    unfolding synchronizeDivisionDuplicateArcFlows_def g by blast
  let ?S = "{x. validArc (baseGraph g) x \<and> source (baseGraph g) x \<in> fst ` set (coupledNodes g)}"
  from inv have inv': "synchronized g ?S fm" by simp
  have mem: "x \<in> ?S" if "coupled g x y" for x y
  proof -
    note c = coupledD [OF that]
    have "(source (baseGraph g) x, source (baseGraph g) y) \<in> set (coupledNodes g)"
      using c(4) divisionWellFormedD(2) [OF wf c(4)] by (simp add: set_coupledNodes)
    then have "source (baseGraph g) x \<in> fst ` set (coupledNodes g)" by force
    with c(1) show ?thesis by simp
  qed
  have 1: "fm x = max (flowMap g x) (flowMap g y) \<and>
        fm y = min (max (flowMap g x) (flowMap g y)) 1" if "coupled g x y" for x y
    using inv' mem [OF that] that unfolding synchronized_def by blast
  have 2: "fm z = flowMap g z" if "\<forall>w. \<not> coupled g z w \<and> \<not> coupled g w z" for z
  proof -
    have "\<forall>x y. x \<in> ?S \<and> coupled g x y \<longrightarrow> z \<noteq> x \<and> z \<noteq> y" using that by blast
    with inv' show ?thesis unfolding synchronized_def by blast
  qed
  from run 1 2 show ?thesis by blast
qed

lemma parallelExample_eq:
  "parallelExample =
     \<lparr>baseGraph = \<lparr>numNodes = 7,
         arcList = [(2, 3), (4, 5), (3, 4), (3, 4), (0, 6), (6, 4), (6, 4)]\<rparr>,
      sourceNode = 0, targets = [1],
      nodeTimestepMap = (\<lambda>_. 0)(0 := 0, 1 := 5, 2 := 1, 3 := 2, 4 := 3, 5 := 4, 6 := 2),
      arcCosts = (\<lambda>_. [])(0 := [- 2], 1 := [- 3], 2 := [0], 3 := [0], 4 := [- 4], 5 := [0], 6 := [0]),
      flowMap = (\<lambda>_. 0)(2 := 1),
      capacityMap = (\<lambda>_. 0)(0 := 1, 1 := 1, 2 := 1, 3 := 1, 4 := 1, 5 := 1, 6 := 1),
      intermediateArcs = {1, 0},
      parentToDuplicateMap = [3 \<mapsto> 6], duplicateToParentMap = [6 \<mapsto> 3],
      residualGraph = None\<rparr>"
  by (simp add: parallelExample_def addNode_def addArc_def addArcFull_def allowMitosis_def
        graphAddNode_def graphAddArc_def FlowGraph_new_def emptyGraph_def Let_def fun_eq_iff
        outArcs_def newestFirst_def source_def target_def isTarget_def)

text \<open>
  Claim C10 as stated fails when two arcs lead from the parent to the same node: the
  inner loop stops at the first out-arc of the duplicate with that target, which is
  arc 6 for both arcs of the parent.  Arcs 2 and 5 are a pair with the flows 1 and 0,
  and arc 5 still carries no flow after the call.
\<close>

theorem synchronize_flows_counterexample:
  "coupled parallelExample 2 5 \<and>
   flowMap parallelExample 2 = 1 \<and> flowMap parallelExample 5 = 0 \<and>
   flowMap (synchronizeDivisionDuplicateArcFlows parallelExample) 2 = 1 \<and>
   flowMap (synchronizeDivisionDuplicateArcFlows parallelExample) 5 = 0 \<and>
   min (max (flowMap parallelExample 2) (flowMap parallelExample 5)) 1 = 1"
  by (simp add: parallelExample_eq coupled_def validArc_def source_def target_def
        synchronizeDivisionDuplicateArcFlows_def coupledNodes_def synchronizeArc_def
        firstOutArcTo_def outArcs_def newestFirst_def Let_def upt_conv_Cons)

lemma outArcs_divisionExample:
  "outArcs (baseGraph divisionExample) 3 = [2]" "outArcs (baseGraph divisionExample) 6 = [4]"
  by (simp_all add: divisionExample_eq outArcs_def newestFirst_def source_def upt_conv_Cons)

lemma uniqueTargets_single:
  assumes "outArcs G n = [x]" shows "uniqueTargets G n"
proof -
  have "set (outArcs G n) = {x}" using assms by simp
  then have "\<And>y. validArc G y \<and> source G y = n \<Longrightarrow> y = x"
    unfolding set_outArcs by blast
  then show ?thesis unfolding uniqueTargets_def by metis
qed

lemma divisionExample_wellFormed: "divisionWellFormed (divisionExample\<lparr>flowMap := fm\<rparr>)"
proof -
  have u: "uniqueTargets (baseGraph divisionExample) 3" "uniqueTargets (baseGraph divisionExample) 6"
    using outArcs_divisionExample by (simp_all add: uniqueTargets_single)
  have m: "parentToDuplicateMap divisionExample = [3 \<mapsto> 6]"
    "duplicateToParentMap divisionExample = [6 \<mapsto> 3]"
    "numNodes (baseGraph divisionExample) = 7"
    by (simp_all add: divisionExample_eq)
  show ?thesis
    unfolding divisionWellFormed_def using u by (simp add: m)
qed

text \<open>
  The division example with one unit of flow on the arc between the two detections:
  the call copies the unit to the arc of the duplicate and leaves the detection arc
  alone.
\<close>

theorem synchronize_flows_witness:
  "divisionWellFormed (divisionExample\<lparr>flowMap := (\<lambda>_. 0)(2 := 1)\<rparr>) \<and>
   coupled (divisionExample\<lparr>flowMap := (\<lambda>_. 0)(2 := 1)\<rparr>) 2 4 \<and>
   (\<exists>fm. synchronizeDivisionDuplicateArcFlows (divisionExample\<lparr>flowMap := (\<lambda>_. 0)(2 := 1)\<rparr>)
            = divisionExample\<lparr>flowMap := fm\<rparr> \<and>
         fm 2 = 1 \<and> fm 4 = 1 \<and> fm 0 = 0)"
proof -
  let ?g = "divisionExample\<lparr>flowMap := (\<lambda>_. 0)(2 := 1)\<rparr>"
  have wf: "divisionWellFormed ?g" by (rule divisionExample_wellFormed)
  have c: "coupled ?g 2 4"
    by (simp add: coupled_def divisionExample_eq validArc_def source_def target_def)
  have n: "\<not> coupled ?g 0 w \<and> \<not> coupled ?g w 0" for w
    by (auto simp: coupled_def divisionExample_eq validArc_def source_def target_def
          nth_Cons split: nat.splits)
  from synchronize_flows [OF wf] obtain fm where
    run: "synchronizeDivisionDuplicateArcFlows ?g = ?g\<lparr>flowMap := fm\<rparr>"
    and 1: "\<And>x y. coupled ?g x y \<Longrightarrow> fm x = max (flowMap ?g x) (flowMap ?g y) \<and>
        fm y = min (max (flowMap ?g x) (flowMap ?g y)) 1"
    and 2: "\<And>z. (\<forall>w. \<not> coupled ?g z w \<and> \<not> coupled ?g w z) \<Longrightarrow> fm z = flowMap ?g z"
    by blast
  from 1 [OF c] have "fm 2 = 1" "fm 4 = 1" by simp_all
  moreover from 2 [of 0] n have "fm 0 = 0" by simp
  ultimately show ?thesis using wf c run by auto
qed

end
